theory Spec2Isabelle
  imports Main
begin

section \<open>Python strings and integers\<close>

text \<open>
  The program is \<^verbatim>\<open>src/dbc_excel.py\<close>. A Python \<^verbatim>\<open>str\<close> is a sequence of code points;
  here a text is a \<^typ>\<open>string\<close> and each \<^typ>\<open>char\<close> stands for the code point with the
  same number, so the texts of this development are the ones whose code points are below
  256. The character classes below are Python's on that range: \<^verbatim>\<open>str.isspace\<close> (which is
  also what \<^verbatim>\<open>\s\<close>, \<^verbatim>\<open>strip()\<close> and \<^verbatim>\<open>split()\<close> use on a \<^verbatim>\<open>str\<close>), the decimal digits
  of \<^verbatim>\<open>\d\<close> and \<^verbatim>\<open>int()\<close>, and the larger class of \<^verbatim>\<open>str.isdigit\<close>, which also holds
  the superscript digits U+00B2, U+00B3 and U+00B9.
\<close>

definition whitespace_chars :: string where
  "whitespace_chars = [CHR 0x09, CHR 0x0A, CHR 0x0B, CHR 0x0C, CHR 0x0D, CHR 0x1C, CHR 0x1D,
     CHR 0x1E, CHR 0x1F, CHR 0x20, CHR 0x85, CHR 0xA0]"

definition isspace :: "char \<Rightarrow> bool" where
  "isspace c = (c \<in> set whitespace_chars)"

definition isdecimal :: "char \<Rightarrow> bool" where
  "isdecimal c = (c \<in> set ''0123456789'')"

definition isdigit_char :: "char \<Rightarrow> bool" where
  "isdigit_char c = (isdecimal c \<or> c \<in> set [CHR 0xB2, CHR 0xB3, CHR 0xB9])"

definition isdigit :: "string \<Rightarrow> bool" where
  \<comment> \<open>\<^verbatim>\<open>str.isdigit()\<close>: false on the empty string\<close>
  "isdigit s = (s \<noteq> [] \<and> list_all isdigit_char s)"

definition strip_chars :: "(char \<Rightarrow> bool) \<Rightarrow> string \<Rightarrow> string" where
  "strip_chars p s = rev (dropWhile p (rev (dropWhile p s)))"

definition strip :: "string \<Rightarrow> string" where
  \<comment> \<open>\<^verbatim>\<open>s.strip()\<close>\<close>
  "strip s = strip_chars isspace s"

definition strip_of :: "string \<Rightarrow> string \<Rightarrow> string" where
  \<comment> \<open>\<^verbatim>\<open>s.strip(cs)\<close>\<close>
  "strip_of cs s = strip_chars (\<lambda>c. c \<in> set cs) s"

fun split_max :: "nat \<Rightarrow> string \<Rightarrow> string list" where
  \<comment> \<open>\<^verbatim>\<open>s.split(None, n)\<close>: at most \<open>n\<close> splits at runs of whitespace; what is left after
      the last split loses its leading whitespace only\<close>
  "split_max 0 s = (let r = dropWhile isspace s in if r = [] then [] else [r])"
| "split_max (Suc n) s =
     (let r = dropWhile isspace s in
      if r = [] then []
      else takeWhile (\<lambda>c. \<not> isspace c) r # split_max n (dropWhile (\<lambda>c. \<not> isspace c) r))"

definition split :: "string \<Rightarrow> string list" where
  \<comment> \<open>\<^verbatim>\<open>s.split()\<close>: no bound on the splits; a text has fewer words than characters\<close>
  "split s = split_max (length s) s"

definition replace_char :: "char \<Rightarrow> char \<Rightarrow> string \<Rightarrow> string" where
  \<comment> \<open>\<^verbatim>\<open>s.replace(a, b)\<close> for one-character \<open>a\<close> and \<open>b\<close>\<close>
  "replace_char a b s = map (\<lambda>c. if c = a then b else c) s"

fun join :: "string \<Rightarrow> string list \<Rightarrow> string" where
  \<comment> \<open>\<^verbatim>\<open>sep.join(xs)\<close>\<close>
  "join sep [] = []"
| "join sep [x] = x"
| "join sep (x # y # ys) = x @ sep @ join sep (y # ys)"

definition startswith :: "string \<Rightarrow> string \<Rightarrow> bool" where
  "startswith s w = (take (length w) s = w)"

datatype error = ValueError

definition digit_value :: "char \<Rightarrow> int" where
  "digit_value c = of_char c - 48"

fun int_digits :: "int \<Rightarrow> bool \<Rightarrow> string \<Rightarrow> int option" where
  \<comment> \<open>the digits of an \<^verbatim>\<open>int()\<close> literal, with single underscores between digits; the flag
      says that the character before was a digit\<close>
  "int_digits acc prev [] = (if prev then Some acc else None)"
| "int_digits acc prev (x # xs) =
     (if isdecimal x then int_digits (10 * acc + digit_value x) True xs
      else if x = CHR ''_'' \<and> prev then int_digits acc False xs
      else None)"

definition int_space_chars :: string where
  \<comment> \<open>the whitespace \<^verbatim>\<open>int()\<close> takes off a \<^verbatim>\<open>str\<close>: it is narrower than \<^verbatim>\<open>str.isspace\<close>, the
      separators U+001C to U+001F are not part of it\<close>
  "int_space_chars = [CHR 0x09, CHR 0x0A, CHR 0x0B, CHR 0x0C, CHR 0x0D, CHR 0x20, CHR 0x85,
     CHR 0xA0]"

definition int_max_str_digits :: int where
  \<comment> \<open>\<^verbatim>\<open>sys.int_max_str_digits\<close>, at the interpreter's default\<close>
  "int_max_str_digits = 4300"

fun count_digits :: "string \<Rightarrow> int" where
  "count_digits [] = 0"
| "count_digits (x # xs) = (if isdecimal x then 1 else 0) + count_digits xs"

definition py_int :: "string \<Rightarrow> error + int" where
  \<comment> \<open>\<^verbatim>\<open>int(s)\<close> on a \<^verbatim>\<open>str\<close>: surrounding whitespace, one optional sign, decimal digits with
      single underscores between them; a literal of more than \<^verbatim>\<open>sys.int_max_str_digits\<close>
      digits raises \<^verbatim>\<open>ValueError\<close> like any other text that is no literal\<close>
  "py_int s =
     (case strip_chars (\<lambda>c. c \<in> set int_space_chars) s of
        [] \<Rightarrow> Inl ValueError
      | x # xs \<Rightarrow>
          let body = (if x = CHR ''-'' \<or> x = CHR ''+'' then xs else x # xs) in
          if count_digits body > int_max_str_digits then Inl ValueError
          else (case int_digits 0 False body of
                  None \<Rightarrow> Inl ValueError
                | Some n \<Rightarrow> Inr (if x = CHR ''-'' then - n else n)))"

function str_digits :: "int \<Rightarrow> string" where
  \<comment> \<open>the decimal digits of a number that is not negative\<close>
  "str_digits n =
     (if n < 10 then [''0123456789'' ! nat n]
      else str_digits (n div 10) @ [''0123456789'' ! nat (n mod 10)])"
  by pat_completeness auto
termination
  by (relation "measure nat") auto

definition str_int :: "int \<Rightarrow> string" where
  \<comment> \<open>\<^verbatim>\<open>str(i)\<close> and \<^verbatim>\<open>f"{i}"\<close>. (The program formats only numbers that \<^verbatim>\<open>int()\<close> has
      returned, less \<open>0x80000000\<close> at most; they have no more digits than
      \<^verbatim>\<open>sys.int_max_str_digits\<close>, so the conversion does not raise.)\<close>
  "str_int i = (if i < 0 then ''-'' @ str_digits (- i) else str_digits i)"

function hex_digits :: "int \<Rightarrow> string" where
  \<comment> \<open>the hexadecimal digits, in capitals, of a number that is not negative\<close>
  "hex_digits n =
     (if n < 16 then [''0123456789ABCDEF'' ! nat n]
      else hex_digits (n div 16) @ [''0123456789ABCDEF'' ! nat (n mod 16)])"
  by pat_completeness auto
termination
  by (relation "measure nat") auto

definition format_X :: "int \<Rightarrow> string" where
  \<comment> \<open>\<^verbatim>\<open>f"{i:X}"\<close>\<close>
  "format_X i = (if i < 0 then ''-'' @ hex_digits (- i) else hex_digits i)"

section \<open>Regular expressions\<close>

text \<open>
  The patterns of the program use literals, character classes, greedy \<^verbatim>\<open>+\<close> and \<^verbatim>\<open>*\<close>
  and lazy \<^verbatim>\<open>+?\<close> on a character class, \<^verbatim>\<open>?\<close>, alternation and capture groups. The
  matcher \<open>backtrack\<close> returns every way a pattern matches at the start of a text, as the
  text left over and the groups captured, in the order in which Python's backtracking
  matcher tries them: the head of the list is the match \<^verbatim>\<open>re\<close> reports.
\<close>

datatype cclass = Space | NonSpace | Digit | Dot | Only string | Except string

fun cls :: "cclass \<Rightarrow> char \<Rightarrow> bool" where
  "cls Space c = isspace c"
| "cls NonSpace c = (\<not> isspace c)"
| "cls Digit c = isdecimal c"
| "cls Dot c = (c \<noteq> CHR 0x0A)"
| "cls (Only w) c = (c \<in> set w)"
| "cls (Except w) c = (c \<notin> set w)"

datatype regex =
    Lit string
  | One cclass
  | Plus cclass
  | Star cclass
  | PlusLazy cclass
  | Opt regex
  | Alt regex regex
  | Seq regex regex
  | Group nat regex

type_synonym caps = "(nat \<times> string) list"

fun strip_prefix :: "string \<Rightarrow> string \<Rightarrow> string option" where
  "strip_prefix [] s = Some s"
| "strip_prefix (x # xs) [] = None"
| "strip_prefix (x # xs) (y # ys) = (if x = y then strip_prefix xs ys else None)"

fun greedy_rests :: "cclass \<Rightarrow> string \<Rightarrow> string list" where
  \<comment> \<open>what is left after one or more characters of the class, the longest run first\<close>
  "greedy_rests k [] = []"
| "greedy_rests k (x # xs) = (if cls k x then greedy_rests k xs @ [xs] else [])"

fun lazy_rests :: "cclass \<Rightarrow> string \<Rightarrow> string list" where
  \<comment> \<open>the same, the shortest run first\<close>
  "lazy_rests k [] = []"
| "lazy_rests k (x # xs) = (if cls k x then xs # lazy_rests k xs else [])"

fun backtrack :: "regex \<Rightarrow> string \<times> caps \<Rightarrow> (string \<times> caps) list" where
  "backtrack (Lit w) (s, c) = (case strip_prefix w s of None \<Rightarrow> [] | Some s' \<Rightarrow> [(s', c)])"
| "backtrack (One k) (s, c) =
     (case s of [] \<Rightarrow> [] | x # xs \<Rightarrow> if cls k x then [(xs, c)] else [])"
| "backtrack (Plus k) (s, c) = map (\<lambda>s'. (s', c)) (greedy_rests k s)"
| "backtrack (Star k) (s, c) = map (\<lambda>s'. (s', c)) (greedy_rests k s @ [s])"
| "backtrack (PlusLazy k) (s, c) = map (\<lambda>s'. (s', c)) (lazy_rests k s)"
| "backtrack (Opt r) (s, c) = backtrack r (s, c) @ [(s, c)]"
| "backtrack (Alt r1 r2) (s, c) = backtrack r1 (s, c) @ backtrack r2 (s, c)"
| "backtrack (Seq r1 r2) (s, c) = concat (map (backtrack r2) (backtrack r1 (s, c)))"
| "backtrack (Group n r) (s, c) =
     map (\<lambda>(s', c'). (s', (n, take (length s - length s') s) # c')) (backtrack r (s, c))"

fun cat :: "regex list \<Rightarrow> regex" where
  "cat [] = Lit []"
| "cat [r] = r"
| "cat (r # rs) = Seq r (cat rs)"

record re_match =
  mt_start :: nat
  mt_end :: nat
  mt_groups :: caps

definition group :: "re_match \<Rightarrow> nat \<Rightarrow> string option" where
  \<comment> \<open>\<^verbatim>\<open>match.group(n)\<close>; \<open>None\<close> when the group took no part in the match\<close>
  "group m n = map_of (mt_groups m) n"

definition group_str :: "re_match \<Rightarrow> nat \<Rightarrow> string" where
  \<comment> \<open>\<^verbatim>\<open>match.group(n) or ''\<close>, and \<^verbatim>\<open>match.group(n)\<close> for a group every match has\<close>
  "group_str m n = (case group m n of None \<Rightarrow> [] | Some w \<Rightarrow> w)"

fun finditer_from :: "regex \<Rightarrow> nat \<Rightarrow> nat \<Rightarrow> string \<Rightarrow> re_match list" where
  \<comment> \<open>\<open>finditer_from r k i s\<close> scans the rest \<open>s\<close> of the text, which starts at offset \<open>i\<close>; the
      first \<open>k\<close> characters of \<open>s\<close> belong to the match before and start no match. (No pattern
      of the program matches the empty text.)\<close>
  "finditer_from r (Suc k) i [] = []"
| "finditer_from r (Suc k) i (x # xs) = finditer_from r k (Suc i) xs"
| "finditer_from r 0 i s =
     (case backtrack r (s, []) of
        [] \<Rightarrow> (case s of [] \<Rightarrow> [] | x # xs \<Rightarrow> finditer_from r 0 (Suc i) xs)
      | (s', c) # _ \<Rightarrow>
          \<lparr>mt_start = i, mt_end = i + (length s - length s'), mt_groups = c\<rparr> #
          (case s of [] \<Rightarrow> []
           | x # xs \<Rightarrow> finditer_from r (length s - length s' - 1) (Suc i) xs))"

definition finditer :: "regex \<Rightarrow> string \<Rightarrow> re_match list" where
  \<comment> \<open>\<^verbatim>\<open>re.finditer(pattern, s)\<close>: the matches from left to right, none overlapping another\<close>
  "finditer r s = finditer_from r 0 0 s"

section \<open>Dictionaries\<close>

text \<open>
  A Python \<^verbatim>\<open>dict\<close> keeps its keys in the order of their first insertion; it is an
  association list with one entry for each key.
\<close>

type_synonym ('k, 'v) dict = "('k \<times> 'v) list"

fun dict_set :: "'k \<Rightarrow> 'v \<Rightarrow> ('k, 'v) dict \<Rightarrow> ('k, 'v) dict" where
  \<comment> \<open>\<^verbatim>\<open>d[k] = v\<close>\<close>
  "dict_set k v [] = [(k, v)]"
| "dict_set k v ((k', v') # d) = (if k' = k then (k', v) # d else (k', v') # dict_set k v d)"

definition dict_get :: "('k, 'v) dict \<Rightarrow> 'k \<Rightarrow> 'v option" where
  "dict_get d k = map_of d k"

definition dict_has :: "'k \<Rightarrow> ('k, 'v) dict \<Rightarrow> bool" where
  \<comment> \<open>\<^verbatim>\<open>k in d\<close>\<close>
  "dict_has k d = (dict_get d k \<noteq> None)"

definition dict_keys :: "('k, 'v) dict \<Rightarrow> 'k set" where
  "dict_keys d = fst ` set d"

fun for_each :: "('a \<Rightarrow> 's \<Rightarrow> error + 's) \<Rightarrow> 'a list \<Rightarrow> 's \<Rightarrow> error + 's" where
  \<comment> \<open>a \<^verbatim>\<open>for\<close> loop whose body updates the state \<open>'s\<close> or raises\<close>
  "for_each body [] st = Inr st"
| "for_each body (x # xs) st =
     (case body x st of Inl e \<Rightarrow> Inl e | Inr st' \<Rightarrow> for_each body xs st')"

fun append_at :: "'k \<Rightarrow> 'a \<Rightarrow> ('k, 'a list) dict \<Rightarrow> ('k, 'a list) dict" where
  \<comment> \<open>\<^verbatim>\<open>d[k].append(x)\<close> for a key the dictionary has\<close>
  "append_at k x [] = []"
| "append_at k x ((k', v) # d) = (if k' = k then (k', v @ [x]) # d else (k', v) # append_at k x d)"

definition item_or_empty :: "string list \<Rightarrow> nat \<Rightarrow> string" where
  \<comment> \<open>\<^verbatim>\<open>parts[i] if len(parts) > i else ''\<close>\<close>
  "item_or_empty parts i = (if length parts > i then parts ! i else [])"

section \<open>The parser\<close>

subsection \<open>Patterns\<close>

definition value_table_pattern :: regex where
  \<comment> \<open>\<^verbatim>\<open>VAL_TABLE_\s+(\S+)\s+(.+?)\s*;\<close>\<close>
  "value_table_pattern = cat [Lit ''VAL_TABLE_'', Plus Space, Group 1 (Plus NonSpace), Plus Space,
     Group 2 (PlusLazy Dot), Star Space, Lit '';'']"

definition value_pair_pattern :: regex where
  \<comment> \<open>\<^verbatim>\<open>(-?\d+)\s+"([^"]*)"\<close>\<close>
  "value_pair_pattern = cat [Group 1 (Seq (Opt (Lit ''-'')) (Plus Digit)), Plus Space,
     Lit [CHR 0x22], Group 2 (Star (Except [CHR 0x22])), Lit [CHR 0x22]]"

definition msg_pattern :: regex where
  \<comment> \<open>\<^verbatim>\<open>BO_\s+(\d+)\s+(\S+):\s*(\d+)\s+(\S+)\<close>\<close>
  "msg_pattern = cat [Lit ''BO_'', Plus Space, Group 1 (Plus Digit), Plus Space,
     Group 2 (Plus NonSpace), Lit '':'', Star Space, Group 3 (Plus Digit), Plus Space,
     Group 4 (Plus NonSpace)]"

definition sig_pattern :: regex where
  \<comment> \<open>\<^verbatim>\<open>SG_\s+(\S+)\s*(M|m\d+M?)?\s*:\s*(\d+)\|(\d+)@([01])([+-])\s*\(([^,]+),([^)]+)\)\<close>
      \<^verbatim>\<open>\s*\[([^|]+)\|([^\]]+)\]\s*"([^"]*)"\s*(.+)\<close>\<close>
  "sig_pattern = cat [Lit ''SG_'', Plus Space, Group 1 (Plus NonSpace), Star Space,
     Opt (Group 2 (Alt (Lit ''M'') (cat [Lit ''m'', Plus Digit, Opt (Lit ''M'')]))),
     Star Space, Lit '':'', Star Space, Group 3 (Plus Digit), Lit ''|'', Group 4 (Plus Digit),
     Lit ''@'', Group 5 (One (Only ''01'')), Group 6 (One (Only ''+-'')), Star Space,
     Lit ''('', Group 7 (Plus (Except '','')), Lit '','', Group 8 (Plus (Except '')'')), Lit '')'',
     Star Space, Lit ''['', Group 9 (Plus (Except ''|'')), Lit ''|'',
     Group 10 (Plus (Except '']'')), Lit '']'', Star Space, Lit [CHR 0x22],
     Group 11 (Star (Except [CHR 0x22])), Lit [CHR 0x22], Star Space, Group 12 (Plus Dot)]"

definition signal_val_pattern :: regex where
  \<comment> \<open>\<^verbatim>\<open>VAL_\s+(\d+)\s+(\S+)\s+(.+?)\s*;\<close>\<close>
  "signal_val_pattern = cat [Lit ''VAL_'', Plus Space, Group 1 (Plus Digit), Plus Space,
     Group 2 (Plus NonSpace), Plus Space, Group 3 (PlusLazy Dot), Star Space, Lit '';'']"

definition env_var_val_pattern :: regex where
  \<comment> \<open>\<^verbatim>\<open>VAL_\s+(\S+)\s+(.+?)\s*;\<close>\<close>
  "env_var_val_pattern = cat [Lit ''VAL_'', Plus Space, Group 1 (Plus NonSpace), Plus Space,
     Group 2 (PlusLazy Dot), Star Space, Lit '';'']"

definition cm_bo_pattern :: regex where
  \<comment> \<open>\<^verbatim>\<open>CM_\s+BO_\s+(\d+)\s+"([^"]*)"\s*;\<close>\<close>
  "cm_bo_pattern = cat [Lit ''CM_'', Plus Space, Lit ''BO_'', Plus Space, Group 1 (Plus Digit),
     Plus Space, Lit [CHR 0x22], Group 2 (Star (Except [CHR 0x22])), Lit [CHR 0x22], Star Space,
     Lit '';'']"

definition cm_sg_pattern :: regex where
  \<comment> \<open>\<^verbatim>\<open>CM_\s+SG_\s+(\d+)\s+(\S+)\s+"([^"]*)"\s*;\<close>\<close>
  "cm_sg_pattern = cat [Lit ''CM_'', Plus Space, Lit ''SG_'', Plus Space, Group 1 (Plus Digit),
     Plus Space, Group 2 (Plus NonSpace), Plus Space, Lit [CHR 0x22],
     Group 3 (Star (Except [CHR 0x22])), Lit [CHR 0x22], Star Space, Lit '';'']"

definition cm_bu_pattern :: regex where
  \<comment> \<open>\<^verbatim>\<open>CM_\s+BU_\s+(\S+)\s+"([^"]*)"\s*;\<close>\<close>
  "cm_bu_pattern = cat [Lit ''CM_'', Plus Space, Lit ''BU_'', Plus Space, Group 1 (Plus NonSpace),
     Plus Space, Lit [CHR 0x22], Group 2 (Star (Except [CHR 0x22])), Lit [CHR 0x22], Star Space,
     Lit '';'']"

definition cm_ev_pattern :: regex where
  \<comment> \<open>\<^verbatim>\<open>CM_\s+EV_\s+(\S+)\s+"([^"]*)"\s*;\<close>\<close>
  "cm_ev_pattern = cat [Lit ''CM_'', Plus Space, Lit ''EV_'', Plus Space, Group 1 (Plus NonSpace),
     Plus Space, Lit [CHR 0x22], Group 2 (Star (Except [CHR 0x22])), Lit [CHR 0x22], Star Space,
     Lit '';'']"

definition ba_pattern :: regex where
  \<comment> \<open>\<^verbatim>\<open>BA_\s+"([^"]+)"\s+([^;]+);\<close>\<close>
  "ba_pattern = cat [Lit ''BA_'', Plus Space, Lit [CHR 0x22], Group 1 (Plus (Except [CHR 0x22])),
     Lit [CHR 0x22], Plus Space, Group 2 (Plus (Except '';'')), Lit '';'']"

subsection \<open>The model a parse builds\<close>

record message =
  m_id :: int
  m_id_hex :: string
  m_name :: string
  m_dlc :: int
  m_transmitter :: string
  m_is_extended :: bool
  m_comment :: string

record signal =
  s_msg_id :: int
  s_name :: string
  s_start_bit :: int
  s_length :: int
  s_byte_order_sign :: string
  s_factor_offset :: string
  s_min_max :: string
  s_unit :: string
  s_receivers :: string
  s_multiplexing :: string
  s_comment :: string
  s_value_table :: string

text \<open>
  The fields of \<^verbatim>\<open>DbcParser\<close> that the passes below write. (The passes for nodes,
  attribute definitions, extra transmitters, environment variables and signal value types
  write fields of their own and are not part of this development.)
\<close>

record dbc_parser =
  messages :: "message list"
  signals :: "(int, signal list) dict"
  value_tables :: "(string, (int, string) dict) dict"
  signal_value_tables :: "(int \<times> string, (int, string) dict) dict"
  env_var_value_tables :: "(string, (int, string) dict) dict"
  comments :: "(string \<times> string \<times> string) list"
  ba_assignments :: "(string \<times> string \<times> string \<times> string) list"

definition init_parser :: dbc_parser where
  \<comment> \<open>\<^verbatim>\<open>DbcParser.__init__\<close>\<close>
  "init_parser = \<lparr>messages = [], signals = [], value_tables = [], signal_value_tables = [],
     env_var_value_tables = [], comments = [], ba_assignments = []\<rparr>"

subsection \<open>Value tables\<close>

definition add_value_pair :: "re_match \<Rightarrow> (int, string) dict \<Rightarrow> error + (int, string) dict" where
  "add_value_pair m result =
     (case py_int (group_str m 1) of
        Inl e \<Rightarrow> Inl e
      | Inr key \<Rightarrow> Inr (dict_set key (group_str m 2) result))"

definition parse_value_dict :: "string \<Rightarrow> error + (int, string) dict" where
  "parse_value_dict values_str = for_each add_value_pair (finditer value_pair_pattern values_str) []"

definition add_value_table :: "re_match \<Rightarrow> dbc_parser \<Rightarrow> error + dbc_parser" where
  "add_value_table m self =
     (case parse_value_dict (group_str m 2) of
        Inl e \<Rightarrow> Inl e
      | Inr d \<Rightarrow> Inr (self\<lparr>value_tables := dict_set (group_str m 1) d (value_tables self)\<rparr>))"

definition parse_value_tables :: "string \<Rightarrow> dbc_parser \<Rightarrow> error + dbc_parser" where
  "parse_value_tables content self =
     for_each add_value_table (finditer value_table_pattern content) self"

definition format_value_pairs :: "(int, string) dict \<Rightarrow> string" where
  \<comment> \<open>the writer's \<^verbatim>\<open>' '.join([f'{k}:"{v}"' for k, v in sorted(values.items())])\<close>; the keys
      of a dictionary differ, so sorting its items is sorting them by key\<close>
  "format_value_pairs values =
     join '' '' (map (\<lambda>(k, v). str_int k @ '':'' @ [CHR 0x22] @ v @ [CHR 0x22])
       (sort_key fst values))"

subsection \<open>Messages and signals\<close>

definition add_message :: "re_match \<Rightarrow> dbc_parser \<Rightarrow> error + dbc_parser" where
  "add_message m self =
     (case py_int (group_str m 1) of
        Inl e \<Rightarrow> Inl e
      | Inr msg_id_raw \<Rightarrow>
          let is_extended = (msg_id_raw \<ge> 0x80000000);
              msg_id = (if is_extended then msg_id_raw - 0x80000000 else msg_id_raw)
          in (case py_int (group_str m 3) of
                Inl e \<Rightarrow> Inl e
              | Inr dlc \<Rightarrow>
                  Inr (self\<lparr>messages := messages self @
                         [\<lparr>m_id = msg_id, m_id_hex = ''0x'' @ format_X msg_id,
                           m_name = group_str m 2, m_dlc = dlc, m_transmitter = group_str m 4,
                           m_is_extended = is_extended, m_comment = []\<rparr>],
                       signals := dict_set msg_id [] (signals self)\<rparr>)))"

definition last_msg_id :: "re_match \<Rightarrow> int option \<Rightarrow> error + int option" where
  \<comment> \<open>the body of the loop that looks for the message of a signal\<close>
  "last_msg_id msg_match msg_id =
     (case py_int (group_str msg_match 1) of
        Inl e \<Rightarrow> Inl e
      | Inr msg_id_raw \<Rightarrow>
          Inr (Some (if msg_id_raw \<ge> 0x80000000 then msg_id_raw - 0x80000000 else msg_id_raw)))"

definition make_signal :: "re_match \<Rightarrow> int \<Rightarrow> int \<Rightarrow> int \<Rightarrow> signal" where
  "make_signal m start_bit len msg_id =
     (let receivers = map strip (filter (\<lambda>r. strip r \<noteq> [])
                        (split (replace_char CHR '','' CHR '' '' (strip (group_str m 12)))))
      in \<lparr>s_msg_id = msg_id, s_name = group_str m 1, s_start_bit = start_bit, s_length = len,
          s_byte_order_sign = ''@'' @ group_str m 5 @ group_str m 6,
          s_factor_offset = ''('' @ strip (group_str m 7) @ '','' @ strip (group_str m 8) @ '')'',
          s_min_max = ''['' @ strip (group_str m 9) @ ''|'' @ strip (group_str m 10) @ '']'',
          s_unit = group_str m 11, s_receivers = join '','' receivers,
          s_multiplexing = group_str m 2, s_comment = [], s_value_table = []\<rparr>)"

definition add_signal :: "string \<Rightarrow> re_match \<Rightarrow> dbc_parser \<Rightarrow> error + dbc_parser" where
  "add_signal content m self =
     (case py_int (group_str m 3) of
        Inl e \<Rightarrow> Inl e
      | Inr start_bit \<Rightarrow>
     (case py_int (group_str m 4) of
        Inl e \<Rightarrow> Inl e
      | Inr len \<Rightarrow>
     (case for_each last_msg_id (finditer msg_pattern (take (mt_start m) content)) None of
        Inl e \<Rightarrow> Inl e
      | Inr None \<Rightarrow> Inr self
      | Inr (Some msg_id) \<Rightarrow>
          if dict_has msg_id (signals self)
          then Inr (self\<lparr>signals :=
                 append_at msg_id (make_signal m start_bit len msg_id) (signals self)\<rparr>)
          else Inr self)))"

definition parse_messages_and_signals :: "string \<Rightarrow> dbc_parser \<Rightarrow> error + dbc_parser" where
  "parse_messages_and_signals content self =
     (case for_each add_message (finditer msg_pattern content) self of
        Inl e \<Rightarrow> Inl e
      | Inr self' \<Rightarrow> for_each (add_signal content) (finditer sig_pattern content) self')"

subsection \<open>Value entries of signals and of environment variables\<close>

definition add_signal_val_entry :: "re_match \<Rightarrow> dbc_parser \<Rightarrow> error + dbc_parser" where
  "add_signal_val_entry m self =
     (case py_int (group_str m 1) of
        Inl e \<Rightarrow> Inl e
      | Inr msg_id_raw \<Rightarrow>
          let msg_id = (if msg_id_raw \<ge> 0x80000000 then msg_id_raw - 0x80000000 else msg_id_raw)
          in (case parse_value_dict (group_str m 3) of
                Inl e \<Rightarrow> Inl e
              | Inr d \<Rightarrow>
                  Inr (self\<lparr>signal_value_tables :=
                         dict_set (msg_id, group_str m 2) d (signal_value_tables self)\<rparr>)))"

definition parse_signal_val_entries :: "string \<Rightarrow> dbc_parser \<Rightarrow> error + dbc_parser" where
  "parse_signal_val_entries content self =
     for_each add_signal_val_entry (finditer signal_val_pattern content) self"

definition add_env_var_val_entry :: "re_match \<Rightarrow> dbc_parser \<Rightarrow> error + dbc_parser" where
  "add_env_var_val_entry m self =
     (let first_token = group_str m 1 in
      if \<not> isdigit first_token then
        (case parse_value_dict (group_str m 2) of
           Inl e \<Rightarrow> Inl e
         | Inr d \<Rightarrow>
             Inr (self\<lparr>env_var_value_tables := dict_set first_token d (env_var_value_tables self)\<rparr>))
      else Inr self)"

definition parse_env_var_val_entries :: "string \<Rightarrow> dbc_parser \<Rightarrow> error + dbc_parser" where
  "parse_env_var_val_entries content self =
     for_each add_env_var_val_entry (finditer env_var_val_pattern content) self"

subsection \<open>Comments\<close>

type_synonym comment = "string \<times> string \<times> string"

definition add_bo_comment :: "re_match \<Rightarrow> comment list \<Rightarrow> error + comment list" where
  "add_bo_comment m cs =
     (case py_int (group_str m 1) of
        Inl e \<Rightarrow> Inl e
      | Inr msg_id_raw \<Rightarrow>
          let msg_id = (if msg_id_raw \<ge> 0x80000000 then msg_id_raw - 0x80000000 else msg_id_raw)
          in Inr (cs @ [(''BO'', str_int msg_id, group_str m 2)]))"

definition add_sg_comment :: "re_match \<Rightarrow> comment list \<Rightarrow> error + comment list" where
  "add_sg_comment m cs =
     (case py_int (group_str m 1) of
        Inl e \<Rightarrow> Inl e
      | Inr msg_id_raw \<Rightarrow>
          let msg_id = (if msg_id_raw \<ge> 0x80000000 then msg_id_raw - 0x80000000 else msg_id_raw)
          in Inr (cs @ [(''SG'', str_int msg_id @ '':'' @ group_str m 2, group_str m 3)]))"

definition add_bu_comment :: "re_match \<Rightarrow> comment list \<Rightarrow> error + comment list" where
  "add_bu_comment m cs = Inr (cs @ [(''BU'', group_str m 1, group_str m 2)])"

definition add_ev_comment :: "re_match \<Rightarrow> comment list \<Rightarrow> error + comment list" where
  "add_ev_comment m cs = Inr (cs @ [(''EV'', group_str m 1, group_str m 2)])"

definition parse_comments :: "string \<Rightarrow> dbc_parser \<Rightarrow> error + dbc_parser" where
  "parse_comments content self =
     (case for_each add_bo_comment (finditer cm_bo_pattern content) (comments self) of
        Inl e \<Rightarrow> Inl e
      | Inr c1 \<Rightarrow>
     (case for_each add_sg_comment (finditer cm_sg_pattern content) c1 of
        Inl e \<Rightarrow> Inl e
      | Inr c2 \<Rightarrow>
     (case for_each add_bu_comment (finditer cm_bu_pattern content) c2 of
        Inl e \<Rightarrow> Inl e
      | Inr c3 \<Rightarrow>
     (case for_each add_ev_comment (finditer cm_ev_pattern content) c3 of
        Inl e \<Rightarrow> Inl e
      | Inr c4 \<Rightarrow> Inr (self\<lparr>comments := c4\<rparr>)))))"

subsection \<open>Attribute assignments\<close>

type_synonym assignment = "string \<times> string \<times> string \<times> string"

definition scoped_assignment :: "string \<Rightarrow> error + string \<times> string \<times> string" where
  \<comment> \<open>scope, scope identifier and raw value of the text after the attribute's name\<close>
  "scoped_assignment rest =
     (if startswith rest ''BU_'' then
        (let parts = split_max 2 rest
         in Inr (''BU'', item_or_empty parts 1, item_or_empty parts 2))
      else if startswith rest ''BO_'' then
        (let parts = split_max 2 rest
         in Inr (''BO'', item_or_empty parts 1, item_or_empty parts 2))
      else if startswith rest ''SG_'' then
        (let parts = split_max 3 rest;
             msg_id = item_or_empty parts 1;
             sig_name = item_or_empty parts 2
         in (case py_int msg_id of
               Inl e \<Rightarrow> Inl e
             | Inr msg_id_int \<Rightarrow>
                 let msg_id_int' =
                       (if msg_id_int \<ge> 0x80000000 then msg_id_int - 0x80000000 else msg_id_int)
                 in Inr (''SG'', str_int msg_id_int' @ '':'' @ sig_name, item_or_empty parts 3)))
      else if startswith rest ''EV_'' then
        (let parts = split_max 2 rest
         in Inr (''EV'', item_or_empty parts 1, item_or_empty parts 2))
      else Inr (''GLOBAL'', [], rest))"

definition add_ba_assignment :: "re_match \<Rightarrow> assignment list \<Rightarrow> error + assignment list" where
  "add_ba_assignment m as =
     (let attr_name = group_str m 1;
          rest = strip (group_str m 2)
      in (case scoped_assignment rest of
            Inl e \<Rightarrow> Inl e
          | Inr (scope, scope_id, val) \<Rightarrow>
              Inr (as @ [(scope, scope_id, attr_name, strip_of [CHR 0x22] (strip val))])))"

definition parse_ba_assignments :: "string \<Rightarrow> dbc_parser \<Rightarrow> error + dbc_parser" where
  "parse_ba_assignments content self =
     (case for_each add_ba_assignment (finditer ba_pattern content) (ba_assignments self) of
        Inl e \<Rightarrow> Inl e
      | Inr as \<Rightarrow> Inr (self\<lparr>ba_assignments := as\<rparr>))"

section \<open>Notions used in the statements and proofs\<close>

definition id_recorded :: "re_match \<Rightarrow> message \<Rightarrow> bool" where
  \<comment> \<open>the message holds the identifier of the declaration, with the extended flag taken off\<close>
  "id_recorded m msg =
     (\<exists>raw. py_int (group_str m 1) = Inr raw \<and>
        (raw \<ge> 0x80000000 \<longrightarrow> m_id msg = raw - 0x80000000 \<and> m_is_extended msg) \<and>
        (raw < 0x80000000 \<longrightarrow> m_id msg = raw \<and> \<not> m_is_extended msg))"

definition owned :: "(int, signal list) dict \<Rightarrow> bool" where
  \<comment> \<open>every signal is in the list of the message it names\<close>
  "owned d = (\<forall>k sigs sg. (k, sigs) \<in> set d \<longrightarrow> sg \<in> set sigs \<longrightarrow> s_msg_id sg = k)"

definition keyed :: "dbc_parser \<Rightarrow> bool" where
  "keyed p = (dict_keys (signals p) = m_id ` set (messages p) \<and> owned (signals p))"

definition keeps :: "string \<Rightarrow> string \<times> caps \<Rightarrow> bool" where
  \<comment> \<open>a way of matching a text that ends with \<open>t\<close> which leaves \<open>t\<close> untouched\<close>
  "keeps t y = (length t \<le> length (fst y))"

definition ext :: "string \<Rightarrow> string \<times> caps \<Rightarrow> string \<times> caps" where
  "ext t y = (fst y @ t, snd y)"

definition first_match :: "regex \<Rightarrow> string \<times> caps \<Rightarrow> string \<times> caps \<Rightarrow> bool" where
  \<comment> \<open>\<open>y\<close> is the first way the matcher finds, the one \<^verbatim>\<open>re\<close> reports\<close>
  "first_match r x y = (\<exists>ws. backtrack r x = y # ws)"

definition signal_names :: "error + dbc_parser \<Rightarrow> (int \<times> string list) list option" where
  \<comment> \<open>a summary of a result: the keys of the signals map, each with the names of its signals\<close>
  "signal_names r =
     (case r of Inl e \<Rightarrow> None
      | Inr p \<Rightarrow> Some (map (\<lambda>(k, sigs). (k, map s_name sigs)) (signals p)))"

section \<open>Example texts\<close>

definition text_two_messages :: string where
  \<open>text_two_messages = ''BO_ 100 Msg1: 8 ECU1\<newline>BO_ 2147483652 Msg2: 8 ECU2\<newline>''\<close>

definition text_message_and_signal :: string where
  \<open>text_message_and_signal =
     ''BO_ 100 Msg1: 8 ECU1\<newline> SG_ SigA : 0|8@1+ (1,0) [0|255] "" ECU1\<newline>''\<close>

definition text_signal_first :: string where
  \<open>text_signal_first =
     '' SG_ SigA : 0|8@1+ (1,0) [0|255] "" ECU1\<newline>BO_ 100 Msg1: 8 ECU1\<newline>''\<close>

definition text_two_messages_then_signal :: string where
  \<open>text_two_messages_then_signal =
     ''BO_ 100 Msg1: 8 ECU1\<newline>BO_ 200 Msg2: 8 ECU2\<newline> SG_ SigA : 0|8@1+ (1,0) [0|255] "" ECU1\<newline>''\<close>

definition text_message_runs_into_signal :: string where
  \<open>text_message_runs_into_signal =
     ''BO_ 1 A: 8 X\<newline>BO_ 2 B: 8 SG_ S : 0|8@1+ (1,0) [0|255] "" R''\<close>


definition text_value_entries :: string where
  \<open>text_value_entries = ''VAL_ 100 SigA 0 "Off" 1 "On" ;\<newline>VAL_ EnvVar 0 "a" ;\<newline>''\<close>

definition text_value_entry_without_values :: string where
  \<open>text_value_entry_without_values = ''VAL_ 100 SigA ;''\<close>

definition text_comment :: string where
  \<open>text_comment = ''CM_ BO_ 100 "hello";''\<close>

definition text_declared_and_commented :: string where
  \<open>text_declared_and_commented =
     ''BO_ 100 Msg1: 8 ECU1\<newline>CM_ BO_ 7 "first";\<newline>CM_ BO_ 100 "hello";\<newline>''\<close>

definition text_long_start_bit :: string where
  \<comment> \<open>a signal with no message before it, whose start bit has 4301 digits\<close>
  \<open>text_long_start_bit =
     ''SG_ S : '' @ replicate 4301 CHR ''1'' @ ''|8@1+ (1,0) [0|255] "" R''\<close>

lemma strip_prefix_iff: "strip_prefix w s = Some s' \<longleftrightarrow> s = w @ s'"
  by (induction w s rule: strip_prefix.induct) auto

lemma strip_prefix_iff2: "Some s' = strip_prefix w s \<longleftrightarrow> s = w @ s'"
  using strip_prefix_iff[of w s s'] by auto


lemma greedy_rests_iff:
  "s' \<in> set (greedy_rests k s) \<longleftrightarrow> (\<exists>u. u \<noteq> [] \<and> (\<forall>x\<in>set u. cls k x) \<and> s = u @ s')"
proof (induction s)
  case Nil
  then show ?case by simp
next
  case (Cons x xs)
  show ?case
  proof (cases "cls k x")
    case False
    then show ?thesis by (auto simp: Cons_eq_append_conv)
  next
    case True
    have "(\<exists>u. u \<noteq> [] \<and> (\<forall>y\<in>set u. cls k y) \<and> x # xs = u @ s') \<longleftrightarrow>
          (s' = xs \<or> (\<exists>u. u \<noteq> [] \<and> (\<forall>y\<in>set u. cls k y) \<and> xs = u @ s'))"
    proof
      assume "\<exists>u. u \<noteq> [] \<and> (\<forall>y\<in>set u. cls k y) \<and> x # xs = u @ s'"
      then obtain u where u: "u \<noteq> []" "\<forall>y\<in>set u. cls k y" "x # xs = u @ s'" by blast
      then obtain u' where "u = x # u'" "xs = u' @ s'" by (cases u) auto
      with u show "s' = xs \<or> (\<exists>u. u \<noteq> [] \<and> (\<forall>y\<in>set u. cls k y) \<and> xs = u @ s')"
        by (cases "u' = []") auto
    next
      assume "s' = xs \<or> (\<exists>u. u \<noteq> [] \<and> (\<forall>y\<in>set u. cls k y) \<and> xs = u @ s')"
      then show "\<exists>u. u \<noteq> [] \<and> (\<forall>y\<in>set u. cls k y) \<and> x # xs = u @ s'"
      proof
        assume "s' = xs"
        with True show ?thesis by (intro exI[of _ "[x]"]) simp
      next
        assume "\<exists>u. u \<noteq> [] \<and> (\<forall>y\<in>set u. cls k y) \<and> xs = u @ s'"
        then obtain u where "u \<noteq> []" "\<forall>y\<in>set u. cls k y" "xs = u @ s'" by blast
        with True show ?thesis by (intro exI[of _ "x # u"]) simp
      qed
    qed
    with True Cons show ?thesis by auto
  qed
qed

lemma set_lazy_rests: "set (lazy_rests k s) = set (greedy_rests k s)"
  by (induction s) auto

lemma backtrack_suffix:
  "(s', c') \<in> set (backtrack r (s, c)) \<Longrightarrow> \<exists>u. s = u @ s'"
proof (induction r arbitrary: s c s' c')
  case (Lit w)
  then show ?case by (auto simp: strip_prefix_iff strip_prefix_iff2 split: option.splits)
next
  case (One k)
  then show ?case by (auto split: list.splits if_splits)
next
  case (Plus k)
  then show ?case by (auto simp: greedy_rests_iff)
next
  case (Star k)
  then show ?case by (auto simp: greedy_rests_iff)
next
  case (PlusLazy k)
  then show ?case by (auto simp: set_lazy_rests greedy_rests_iff)
next
  case (Opt r)
  then show ?case by auto
next
  case (Alt r1 r2)
  then show ?case by auto
next
  case (Seq r1 r2)
  from Seq.prems obtain s1 c1 where a: "(s1, c1) \<in> set (backtrack r1 (s, c))"
    and b: "(s', c') \<in> set (backtrack r2 (s1, c1))" by auto
  from Seq.IH(1)[OF a] Seq.IH(2)[OF b] show ?case by auto
next
  case (Group n r)
  then show ?case by auto
qed

lemma bt_Lit: "(s', c') \<in> set (backtrack (Lit w) (s, c)) \<longleftrightarrow> s = w @ s' \<and> c' = c"
  by (auto simp: strip_prefix_iff strip_prefix_iff2 split: option.splits)

lemma bt_One:
  "(s', c') \<in> set (backtrack (One k) (s, c)) \<longleftrightarrow> (\<exists>x. cls k x \<and> s = x # s' \<and> c' = c)"
  by (auto split: list.splits)

lemma bt_Plus:
  "(s', c') \<in> set (backtrack (Plus k) (s, c)) \<longleftrightarrow>
     c' = c \<and> (\<exists>u. u \<noteq> [] \<and> (\<forall>x\<in>set u. cls k x) \<and> s = u @ s')"
  by (auto simp: greedy_rests_iff)

lemma bt_Star:
  "(s', c') \<in> set (backtrack (Star k) (s, c)) \<longleftrightarrow>
     c' = c \<and> (\<exists>u. (\<forall>x\<in>set u. cls k x) \<and> s = u @ s')"
  by (auto simp: greedy_rests_iff)

lemma bt_PlusLazy:
  "(s', c') \<in> set (backtrack (PlusLazy k) (s, c)) \<longleftrightarrow>
     c' = c \<and> (\<exists>u. u \<noteq> [] \<and> (\<forall>x\<in>set u. cls k x) \<and> s = u @ s')"
  by (auto simp: set_lazy_rests greedy_rests_iff)

lemma bt_Opt:
  "(s', c') \<in> set (backtrack (Opt r) (s, c)) \<longleftrightarrow>
     (s', c') \<in> set (backtrack r (s, c)) \<or> (s' = s \<and> c' = c)"
  by auto

lemma bt_Alt:
  "(s', c') \<in> set (backtrack (Alt r1 r2) (s, c)) \<longleftrightarrow>
     (s', c') \<in> set (backtrack r1 (s, c)) \<or> (s', c') \<in> set (backtrack r2 (s, c))"
  by auto

lemma bt_Seq:
  "(s', c') \<in> set (backtrack (Seq r1 r2) (s, c)) \<longleftrightarrow>
     (\<exists>s1 c1. (s1, c1) \<in> set (backtrack r1 (s, c)) \<and> (s', c') \<in> set (backtrack r2 (s1, c1)))"
  by auto

lemma bt_Group:
  "(s', c') \<in> set (backtrack (Group n r) (s, c)) \<longleftrightarrow>
     (\<exists>u c1. s = u @ s' \<and> (s', c1) \<in> set (backtrack r (s, c)) \<and> c' = (n, u) # c1)"
proof
  assume "(s', c') \<in> set (backtrack (Group n r) (s, c))"
  then obtain c1 where a: "(s', c1) \<in> set (backtrack r (s, c))"
    and b: "c' = (n, take (length s - length s') s) # c1" by auto
  from backtrack_suffix[OF a] obtain u where "s = u @ s'" by blast
  with a b show "\<exists>u c1. s = u @ s' \<and> (s', c1) \<in> set (backtrack r (s, c)) \<and> c' = (n, u) # c1"
    by auto
next
  assume "\<exists>u c1. s = u @ s' \<and> (s', c1) \<in> set (backtrack r (s, c)) \<and> c' = (n, u) # c1"
  then show "(s', c') \<in> set (backtrack (Group n r) (s, c))" by force
qed

lemmas bt_iff = bt_Lit bt_One bt_Plus bt_Star bt_PlusLazy bt_Opt bt_Alt bt_Seq bt_Group

lemma msg_pattern_shape:
  assumes "(s', c') \<in> set (backtrack msg_pattern (s, c))"
  shows "\<exists>w1 d1 w2 nm w3 d2 w4 tx.
     s = ''BO_'' @ w1 @ d1 @ w2 @ nm @ '':'' @ w3 @ d2 @ w4 @ tx @ s' \<and>
     c' = [(4, tx), (3, d2), (2, nm), (1, d1)] @ c \<and>
     w1 \<noteq> [] \<and> (\<forall>x\<in>set w1. isspace x) \<and> d1 \<noteq> [] \<and> (\<forall>x\<in>set d1. isdecimal x) \<and>
     w2 \<noteq> [] \<and> (\<forall>x\<in>set w2. isspace x) \<and> nm \<noteq> [] \<and> (\<forall>x\<in>set nm. \<not> isspace x) \<and>
     (\<forall>x\<in>set w3. isspace x) \<and> d2 \<noteq> [] \<and> (\<forall>x\<in>set d2. isdecimal x) \<and>
     w4 \<noteq> [] \<and> (\<forall>x\<in>set w4. isspace x) \<and> tx \<noteq> [] \<and> (\<forall>x\<in>set tx. \<not> isspace x)"
  using assms unfolding msg_pattern_def cat.simps
  apply (simp only: bt_iff cls.simps)
  apply clarsimp
  apply blast?
  done

declare finditer_from.simps(3) [simp del]

lemma finditer_from_no_match:
  "backtrack r (x # xs, []) = [] \<Longrightarrow> finditer_from r 0 i (x # xs) = finditer_from r 0 (Suc i) xs"
  by (simp add: finditer_from.simps(3))

lemma finditer_from_match:
  "backtrack r (x # xs, []) = (s', c) # ys \<Longrightarrow>
   finditer_from r 0 i (x # xs) =
     \<lparr>mt_start = i, mt_end = i + (length (x # xs) - length s'), mt_groups = c\<rparr> #
     finditer_from r (length (x # xs) - length s' - 1) (Suc i) xs"
  by (simp add: finditer_from.simps(3))

lemma finditer_from_end:
  "finditer_from r 0 i [] =
     (case backtrack r ([], []) of [] \<Rightarrow> []
      | (s', c) # _ \<Rightarrow> [\<lparr>mt_start = i, mt_end = i + (0 - length s'), mt_groups = c\<rparr>])"
  by (simp add: finditer_from.simps(3) split: list.splits)

lemma finditer_from_elem:
  "m \<in> set (finditer_from r k i s) \<Longrightarrow>
     \<exists>j s' c ys. j \<le> length s \<and> backtrack r (drop j s, []) = (s', c) # ys \<and>
       m = \<lparr>mt_start = i + j, mt_end = i + j + (length s - j - length s'), mt_groups = c\<rparr>"
proof (induction r k i s rule: finditer_from.induct)
  case (1 r k i)
  then show ?case by simp
next
  case (2 r k i x xs)
  from 2 obtain j s' c ys where "j \<le> length xs" "backtrack r (drop j xs, []) = (s', c) # ys"
    "m = \<lparr>mt_start = Suc i + j, mt_end = Suc i + j + (length xs - j - length s'), mt_groups = c\<rparr>"
    by auto
  then show ?case by (intro exI[of _ "Suc j"]) auto
next
  case (3 r i s)
  show ?case
  proof (cases s)
    case Nil
    with "3.prems" show ?thesis
      by (intro exI[of _ 0]) (auto simp: finditer_from_end split: list.splits dest: sym)
  next
    case s: (Cons x xs)
    show ?thesis
    proof (cases "backtrack r (s, [])")
      case Nil
      with "3.prems" s have m: "m \<in> set (finditer_from r 0 (Suc i) xs)"
        by (simp add: finditer_from_no_match)
      from "3.IH"(1)[OF Nil s m] obtain j s' c ys where "j \<le> length xs"
        "backtrack r (drop j xs, []) = (s', c) # ys"
        "m = \<lparr>mt_start = Suc i + j, mt_end = Suc i + j + (length xs - j - length s'), mt_groups = c\<rparr>"
        by auto
      with s show ?thesis by (intro exI[of _ "Suc j"]) auto
    next
      case (Cons p ps)
      obtain s0 c0 where p: "p = (s0, c0)" by (cases p)
      show ?thesis
      proof (cases "m = \<lparr>mt_start = i, mt_end = i + (length s - length s0), mt_groups = c0\<rparr>")
        case True
        with Cons p show ?thesis by (intro exI[of _ 0]) auto
      next
        case False
        with "3.prems" Cons p s
        have m: "m \<in> set (finditer_from r (length s - length s0 - 1) (Suc i) xs)"
          by (simp add: finditer_from_match)
        from "3.IH"(2)[OF Cons p[symmetric] s m] obtain j s' c ys where "j \<le> length xs"
          "backtrack r (drop j xs, []) = (s', c) # ys"
          "m = \<lparr>mt_start = Suc i + j, mt_end = Suc i + j + (length xs - j - length s'), mt_groups = c\<rparr>"
          by auto
        with s show ?thesis by (intro exI[of _ "Suc j"]) auto
      qed
    qed
  qed
qed

lemma finditer_elem:
  assumes "m \<in> set (finditer r s)"
  shows "\<exists>s' ys. backtrack r (drop (mt_start m) s, []) = (s', mt_groups m) # ys \<and>
           mt_start m \<le> length s \<and>
           mt_end m = mt_start m + (length s - mt_start m - length s')"
  using finditer_from_elem[OF assms[unfolded finditer_def]] by auto

lemma finditer_elem_mem:
  assumes "m \<in> set (finditer r s)"
  shows "\<exists>s'. (s', mt_groups m) \<in> set (backtrack r (drop (mt_start m) s, []))"
  using finditer_elem[OF assms] by (metis list.set_intros(1))

lemma isdecimal_not_isspace: "isdecimal c \<Longrightarrow> \<not> isspace c"
  by (auto simp: isdecimal_def isspace_def whitespace_chars_def)

lemma isdecimal_not_int_space: "isdecimal c \<Longrightarrow> c \<notin> set int_space_chars"
  by (auto simp: isdecimal_def int_space_chars_def)

lemma dropWhile_none: "\<forall>x\<in>set s. \<not> p x \<Longrightarrow> dropWhile p s = s"
  by (cases s) auto

lemma strip_chars_none: "\<forall>x\<in>set s. \<not> p x \<Longrightarrow> strip_chars p s = s"
  by (simp add: strip_chars_def dropWhile_none)

lemma strip_decimals: "\<forall>x\<in>set s. isdecimal x \<Longrightarrow> strip s = s"
  unfolding strip_def by (rule strip_chars_none) (auto dest: isdecimal_not_isspace)

lemma int_strip_decimals:
  "\<forall>x\<in>set s. isdecimal x \<Longrightarrow> strip_chars (\<lambda>c. c \<in> set int_space_chars) s = s"
  by (rule strip_chars_none) (auto dest: isdecimal_not_int_space)

lemma int_strip_minus_decimals:
  "\<forall>x\<in>set s. isdecimal x \<Longrightarrow>
   strip_chars (\<lambda>c. c \<in> set int_space_chars) (CHR ''-'' # s) = CHR ''-'' # s"
proof (rule strip_chars_none)
  assume d: "\<forall>x\<in>set s. isdecimal x"
  have "CHR ''-'' \<notin> set int_space_chars" by (simp add: int_space_chars_def)
  with d show "\<forall>x\<in>set (CHR ''-'' # s). x \<notin> set int_space_chars"
    using isdecimal_not_int_space by auto
qed

lemma count_digits_decimals: "\<forall>x\<in>set s. isdecimal x \<Longrightarrow> count_digits s = int (length s)"
  by (induction s) auto

lemma int_digits_decimals:
  "\<forall>x\<in>set s. isdecimal x \<Longrightarrow> s \<noteq> [] \<or> prev \<Longrightarrow> \<exists>n. int_digits acc prev s = Some n"
  by (induction s arbitrary: acc prev) auto

text \<open>a run of decimal digits is a literal of \<^verbatim>\<open>int()\<close> as long as it has no more than
  4300 digits; a longer one makes \<^verbatim>\<open>int()\<close> raise\<close>

lemma py_int_decimals:
  assumes "s \<noteq> []" "\<forall>x\<in>set s. isdecimal x" "length s \<le> 4300"
  shows "\<exists>n. py_int s = Inr n"
proof -
  from assms obtain x xs where s: "s = x # xs" by (cases s) auto
  with assms have x: "isdecimal x" by simp
  then have "x \<noteq> CHR ''-''" "x \<noteq> CHR ''+''" by (auto simp: isdecimal_def)
  moreover from int_digits_decimals[OF assms(2), of False 0] assms(1)
  obtain n where "int_digits 0 False s = Some n" by auto
  moreover have "\<not> count_digits s > int_max_str_digits"
    using count_digits_decimals[OF assms(2)] assms(3) by (simp add: int_max_str_digits_def)
  ultimately show ?thesis using s int_strip_decimals[OF assms(2)]
    by (simp add: py_int_def)
qed

lemma py_int_minus_decimals:
  assumes "s \<noteq> []" "\<forall>x\<in>set s. isdecimal x" "length s \<le> 4300"
  shows "\<exists>n. py_int (CHR ''-'' # s) = Inr n"
proof -
  from int_digits_decimals[OF assms(2), of False 0] assms(1)
  obtain n where "int_digits 0 False s = Some n" by auto
  moreover have "\<not> count_digits s > int_max_str_digits"
    using count_digits_decimals[OF assms(2)] assms(3) by (simp add: int_max_str_digits_def)
  ultimately show ?thesis using int_strip_minus_decimals[OF assms(2)]
    by (simp add: py_int_def)
qed

lemma py_int_too_long:
  assumes "\<forall>x\<in>set s. isdecimal x" "4300 < length s"
  shows "py_int s = Inl ValueError"
proof -
  from assms obtain x xs where s: "s = x # xs" by (cases s) auto
  with assms have x: "isdecimal x" by simp
  then have "x \<noteq> CHR ''-''" "x \<noteq> CHR ''+''" by (auto simp: isdecimal_def)
  moreover have "count_digits s > int_max_str_digits"
    using count_digits_decimals[OF assms(1)] assms(2) by (simp add: int_max_str_digits_def)
  ultimately show ?thesis using s int_strip_decimals[OF assms(1)]
    by (simp add: py_int_def)
qed

lemma for_each_total:
  "(\<And>x st. x \<in> set xs \<Longrightarrow> \<exists>st'. body x st = Inr st') \<Longrightarrow> \<exists>st'. for_each body xs st = Inr st'"
proof (induction xs arbitrary: st)
  case Nil
  then show ?case by simp
next
  case (Cons x xs)
  from Cons.prems[of x st] obtain st1 where "body x st = Inr st1" by auto
  moreover from Cons.IH[of st1] Cons.prems obtain st2 where "for_each body xs st1 = Inr st2"
    by auto
  ultimately show ?case by simp
qed

lemma for_each_invariant:
  "for_each body xs st = Inr st' \<Longrightarrow> I st \<Longrightarrow>
   (\<And>x a b. x \<in> set xs \<Longrightarrow> I a \<Longrightarrow> body x a = Inr b \<Longrightarrow> I b) \<Longrightarrow> I st'"
proof (induction xs arbitrary: st)
  case Nil
  then show ?case by simp
next
  case (Cons x xs)
  from Cons.prems(1) obtain st1 where a: "body x st = Inr st1" and b: "for_each body xs st1 = Inr st'"
    by (auto split: sum.splits)
  have "I st1" using Cons.prems(3)[OF _ Cons.prems(2) a] by simp
  from Cons.IH[OF b this] Cons.prems(3) show ?case by auto
qed


text \<open>groups of the message pattern\<close>

lemma msg_match_groups:
  assumes "m \<in> set (finditer msg_pattern s)"
  shows "\<exists>d1 nm d2 tx. mt_groups m = [(4, tx), (3, d2), (2, nm), (1, d1)] \<and>
     d1 \<noteq> [] \<and> (\<forall>x\<in>set d1. isdecimal x) \<and> d2 \<noteq> [] \<and> (\<forall>x\<in>set d2. isdecimal x)"
proof -
  from finditer_elem_mem[OF assms] obtain s' where
    "(s', mt_groups m) \<in> set (backtrack msg_pattern (drop (mt_start m) s, []))" by blast
  from msg_pattern_shape[OF this] show ?thesis by auto
qed

lemma add_message_result:
  assumes "add_message m p = Inr p'"
  shows "\<exists>raw dlc. py_int (group_str m 1) = Inr raw \<and> py_int (group_str m 3) = Inr dlc \<and>
     p' = p\<lparr>messages := messages p @
            [\<lparr>m_id = (if raw \<ge> 0x80000000 then raw - 0x80000000 else raw),
              m_id_hex = ''0x'' @ format_X (if raw \<ge> 0x80000000 then raw - 0x80000000 else raw),
              m_name = group_str m 2, m_dlc = dlc, m_transmitter = group_str m 4,
              m_is_extended = (raw \<ge> 0x80000000), m_comment = []\<rparr>],
          signals := dict_set (if raw \<ge> 0x80000000 then raw - 0x80000000 else raw) []
             (signals p)\<rparr>"
  using assms by (auto simp: add_message_def Let_def split: sum.splits)

lemma add_messages_recorded:
  "for_each add_message ms p = Inr p' \<Longrightarrow>
     \<exists>new. messages p' = messages p @ new \<and> list_all2 id_recorded ms new"
proof (induction ms arbitrary: p)
  case Nil
  then show ?case by simp
next
  case (Cons m ms)
  from Cons.prems obtain p1 where a: "add_message m p = Inr p1"
    and b: "for_each add_message ms p1 = Inr p'" by (auto split: sum.splits)
  from add_message_result[OF a] obtain msg where
    m: "messages p1 = messages p @ [msg]" "id_recorded m msg"
    by (auto simp: id_recorded_def)
  from Cons.IH[OF b] obtain new where "messages p' = messages p1 @ new"
    "list_all2 id_recorded ms new" by blast
  with m show ?case by (intro exI[of _ "msg # new"]) simp
qed

lemma add_signal_messages: "add_signal content m p = Inr p' \<Longrightarrow> messages p' = messages p"
  by (auto simp: add_signal_def split: sum.splits option.splits if_splits)

lemma add_signals_messages:
  assumes "for_each (add_signal content) ms p = Inr p'"
  shows "messages p' = messages p"
  by (rule for_each_invariant[OF assms, where I = "\<lambda>q. messages q = messages p"])
     (auto dest: add_signal_messages)

text \<open>
  Claim C1: for every message declaration of the text, in the order of the text, the message
  recorded for it has the identifier \<open>raw - 0x80000000\<close> and the extended flag set when the
  raw identifier of the declaration is at least \<open>0x80000000\<close>, and has the raw identifier
  and the flag cleared when it is smaller.
\<close>

theorem C1_extended_id_normalized:
  assumes "parse_messages_and_signals content init_parser = Inr p"
  shows "list_all2
     (\<lambda>m msg. \<exists>raw. py_int (group_str m 1) = Inr raw \<and>
        (raw \<ge> 0x80000000 \<longrightarrow> m_id msg = raw - 0x80000000 \<and> m_is_extended msg) \<and>
        (raw < 0x80000000 \<longrightarrow> m_id msg = raw \<and> \<not> m_is_extended msg))
     (finditer msg_pattern content) (messages p)"
proof -
  from assms obtain p1 where
    a: "for_each add_message (finditer msg_pattern content) init_parser = Inr p1" and
    b: "for_each (add_signal content) (finditer sig_pattern content) p1 = Inr p"
    by (auto simp: parse_messages_and_signals_def split: sum.splits)
  from add_messages_recorded[OF a] have "list_all2 id_recorded (finditer msg_pattern content) (messages p1)"
    by (simp add: init_parser_def)
  with add_signals_messages[OF b] show ?thesis
    by (simp add: id_recorded_def[abs_def])
qed

lemma case_sum_SomeE:
  "(case x of Inl e \<Rightarrow> None | Inr p \<Rightarrow> Some (f p)) = Some y \<Longrightarrow> \<exists>p. x = Inr p \<and> f p = y"
  by (cases x) auto

lemma two_messages_parsed:
  "(case parse_messages_and_signals text_two_messages init_parser of
      Inl e \<Rightarrow> None
    | Inr p \<Rightarrow> Some (map m_id (messages p), map m_is_extended (messages p))) =
   Some ([100, 4], [False, True])"
  by code_simp

theorem C1_extended_id_normalized_witness:
  "\<exists>p. parse_messages_and_signals text_two_messages init_parser = Inr p \<and>
     list_all2
       (\<lambda>m msg. \<exists>raw. py_int (group_str m 1) = Inr raw \<and>
          (raw \<ge> 0x80000000 \<longrightarrow> m_id msg = raw - 0x80000000 \<and> m_is_extended msg) \<and>
          (raw < 0x80000000 \<longrightarrow> m_id msg = raw \<and> \<not> m_is_extended msg))
       (finditer msg_pattern text_two_messages) (messages p) \<and>
     map m_id (messages p) = [100, 4] \<and> map m_is_extended (messages p) = [False, True]"
proof -
  from two_messages_parsed[THEN case_sum_SomeE]
  obtain p where p: "parse_messages_and_signals text_two_messages init_parser = Inr p"
    and v: "map m_id (messages p) = [100, 4]" "map m_is_extended (messages p) = [False, True]"
    by (elim exE conjE) simp
  from C1_extended_id_normalized[OF p] p v show ?thesis by (intro exI[of _ p]) simp
qed

text \<open>signals: keys and owners\<close>

lemma dict_keys_map: "dict_keys d = set (map fst d)"
  by (simp add: dict_keys_def)

lemma dict_keys_dict_set: "dict_keys (dict_set k v d) = insert k (dict_keys d)"
proof (induction d)
  case Nil
  then show ?case by (simp add: dict_keys_def)
next
  case (Cons a d)
  obtain k' v' where a: "a = (k', v')" by (cases a)
  show ?case
  proof (cases "k' = k")
    case True
    with a show ?thesis by (simp add: dict_keys_def)
  next
    case False
    with a Cons show ?thesis by (simp add: dict_keys_def insert_commute)
  qed
qed

lemma map_fst_append_at: "map fst (append_at k x d) = map fst d"
  by (induction d) auto

lemma dict_keys_append_at: "dict_keys (append_at k x d) = dict_keys d"
  by (simp add: dict_keys_map map_fst_append_at)

lemma set_dict_set: "(k', v') \<in> set (dict_set k v d) \<Longrightarrow> (k', v') \<in> set d \<or> (k' = k \<and> v' = v)"
  by (induction d) (auto split: if_splits)

lemma set_append_at:
  "(k', v') \<in> set (append_at k x d) \<Longrightarrow>
     (k', v') \<in> set d \<or> (k' = k \<and> (\<exists>v. (k, v) \<in> set d \<and> v' = v @ [x]))"
  by (induction d) (auto split: if_splits)

lemma dict_has_keys: "dict_has k d \<longleftrightarrow> k \<in> dict_keys d"
  by (auto simp: dict_has_def dict_get_def dict_keys_def map_of_eq_None_iff)

lemma owned_dict_set:
  assumes "owned d"
  shows "owned (dict_set k [] d)"
  unfolding owned_def
proof (intro allI impI)
  fix ka sigs sg
  assume a: "(ka, sigs) \<in> set (dict_set k [] d)" and b: "sg \<in> set sigs"
  from set_dict_set[OF a] b have "(ka, sigs) \<in> set d" by auto
  with assms b show "s_msg_id sg = ka" unfolding owned_def by blast
qed

lemma make_signal_msg_id: "s_msg_id (make_signal m a b k) = k"
  by (simp add: make_signal_def Let_def)

lemma owned_append_at:
  assumes "owned d"
  shows "owned (append_at k (make_signal m a b k) d)"
  unfolding owned_def
proof (intro allI impI)
  fix ka sigs sg
  assume a: "(ka, sigs) \<in> set (append_at k (make_signal m a b k) d)" and b: "sg \<in> set sigs"
  from set_append_at[OF a] consider "(ka, sigs) \<in> set d"
    | v where "ka = k" "(k, v) \<in> set d" "sigs = v @ [make_signal m a b k]" by blast
  then show "s_msg_id sg = ka"
  proof cases
    case 1
    with assms b show ?thesis unfolding owned_def by blast
  next
    case 2
    with b have "sg \<in> set v \<or> sg = make_signal m a b k" by auto
    with 2 assms show ?thesis unfolding owned_def by (auto simp: make_signal_msg_id)
  qed
qed

lemma keyed_add_message: "keyed p \<Longrightarrow> add_message m p = Inr p' \<Longrightarrow> keyed p'"
  by (drule add_message_result) (auto simp: keyed_def dict_keys_dict_set owned_dict_set)

lemma keyed_add_signal: "keyed p \<Longrightarrow> add_signal content m p = Inr p' \<Longrightarrow> keyed p'"
  by (auto simp: add_signal_def keyed_def dict_keys_append_at owned_append_at
      split: sum.splits option.splits if_splits)

lemma keyed_parse:
  assumes "parse_messages_and_signals content init_parser = Inr p"
  shows "keyed p"
proof -
  from assms obtain p1 where
    a: "for_each add_message (finditer msg_pattern content) init_parser = Inr p1" and
    b: "for_each (add_signal content) (finditer sig_pattern content) p1 = Inr p"
    by (auto simp: parse_messages_and_signals_def split: sum.splits)
  have "keyed init_parser" by (simp add: keyed_def init_parser_def dict_keys_def owned_def)
  with a have "keyed p1"
    by (rule for_each_invariant) (auto intro: keyed_add_message)
  with b show ?thesis
    by (rule for_each_invariant) (auto intro: keyed_add_signal)
qed

text \<open>
  Claim C10: when the extraction of messages and signals has completed, the keys of the
  signals map are exactly the identifiers of the extracted messages, and every signal stored
  in the map names the key it is stored under, which is the identifier of an extracted
  message.
\<close>

theorem C10_signal_keys_are_message_ids:
  assumes "parse_messages_and_signals content init_parser = Inr p"
  shows "dict_keys (signals p) = m_id ` set (messages p) \<and>
     (\<forall>k sigs sg. dict_get (signals p) k = Some sigs \<longrightarrow> sg \<in> set sigs \<longrightarrow>
        s_msg_id sg = k \<and> s_msg_id sg \<in> m_id ` set (messages p))"
proof -
  from keyed_parse[OF assms] have k: "dict_keys (signals p) = m_id ` set (messages p)"
    and o: "owned (signals p)" by (simp_all add: keyed_def)
  have "s_msg_id sg = k \<and> s_msg_id sg \<in> m_id ` set (messages p)"
    if "dict_get (signals p) k = Some sigs" "sg \<in> set sigs" for k sigs sg
  proof -
    from that(1) have "(k, sigs) \<in> set (signals p)" by (simp add: dict_get_def map_of_SomeD)
    with o that(2) have "s_msg_id sg = k" by (auto simp: owned_def)
    moreover from \<open>(k, sigs) \<in> set (signals p)\<close> have "k \<in> dict_keys (signals p)"
      by (force simp: dict_keys_def)
    ultimately show ?thesis using k by simp
  qed
  with k show ?thesis by blast
qed

lemma one_signal_parsed:
  "(case parse_messages_and_signals text_message_and_signal init_parser of
      Inl e \<Rightarrow> None
    | Inr p \<Rightarrow> Some (map m_id (messages p), map (\<lambda>(k, sigs). (k, map s_name sigs)) (signals p))) =
   Some ([100], [(100, [''SigA''])])"
  by code_simp

theorem C10_signal_keys_are_message_ids_witness:
  "\<exists>p sg. parse_messages_and_signals text_message_and_signal init_parser = Inr p \<and>
     dict_get (signals p) 100 = Some [sg] \<and> sg \<in> set [sg] \<and> s_msg_id sg = 100 \<and>
     dict_keys (signals p) = {100} \<and> m_id ` set (messages p) = {100}"
proof -
  from one_signal_parsed[THEN case_sum_SomeE]
  obtain p where p: "parse_messages_and_signals text_message_and_signal init_parser = Inr p"
    and m: "map m_id (messages p) = [100]"
    and s: "map (\<lambda>(k, sigs). (k, map s_name sigs)) (signals p) = [(100, [''SigA''])]"
    by (elim exE conjE) simp
  from s obtain sg where sg: "signals p = [(100, [sg])]" by (auto simp: map_eq_Cons_conv)
  then have g: "dict_get (signals p) 100 = Some [sg]" by (simp add: dict_get_def)
  from m have "set (map m_id (messages p)) = {100}" by simp
  then have i: "m_id ` set (messages p) = {100}" by simp
  from C10_signal_keys_are_message_ids[OF p] g i
  have "s_msg_id sg = 100" "dict_keys (signals p) = {100}" by auto
  with p g i show ?thesis by (intro exI[of _ p] exI[of _ sg]) simp
qed

lemma greedy_rests_shorter: "s' \<in> set (greedy_rests k s) \<Longrightarrow> length s' < length s"
  by (auto simp: greedy_rests_iff)

lemma lazy_rests_shorter: "s' \<in> set (lazy_rests k s) \<Longrightarrow> length s' < length s"
  by (auto simp: set_lazy_rests greedy_rests_iff)

lemma filter_none: "(\<And>x. x \<in> set xs \<Longrightarrow> \<not> P x) \<Longrightarrow> filter P xs = []"
  by (induction xs) auto

lemma greedy_rests_prefix:
  "filter (\<lambda>s''. length t \<le> length s'') (greedy_rests k (s @ t)) =
     map (\<lambda>s'. s' @ t) (greedy_rests k s)"
proof (induction s)
  case Nil
  have "filter (\<lambda>s''. length t \<le> length s'') (greedy_rests k t) = []"
    by (rule filter_none) (use greedy_rests_shorter[of _ k t] in force)
  then show ?case by simp
next
  case (Cons x xs)
  then show ?case by simp
qed

lemma lazy_rests_prefix:
  "filter (\<lambda>s''. length t \<le> length s'') (lazy_rests k (s @ t)) =
     map (\<lambda>s'. s' @ t) (lazy_rests k s)"
proof (induction s)
  case Nil
  have "filter (\<lambda>s''. length t \<le> length s'') (lazy_rests k t) = []"
    by (rule filter_none) (use lazy_rests_shorter[of _ k t] in force)
  then show ?case by simp
next
  case (Cons x xs)
  then show ?case by simp
qed

lemma strip_prefix_prefix:
  "filter (\<lambda>s''. length t \<le> length s'') (case strip_prefix w (s @ t) of None \<Rightarrow> [] | Some s' \<Rightarrow> [s']) =
     map (\<lambda>s'. s' @ t) (case strip_prefix w s of None \<Rightarrow> [] | Some s' \<Rightarrow> [s'])"
proof (induction w s rule: strip_prefix.induct)
  case (1 s)
  then show ?case by simp
next
  case (2 x xs)
  have "length s'' < length t" if "strip_prefix (x # xs) t = Some s''" for s''
    using that by (auto simp: strip_prefix_iff)
  then show ?case by (auto split: option.splits)
next
  case (3 x xs y ys)
  then show ?case by simp
qed

lemma concat_map_filter:
  "(\<And>x. x \<in> set xs \<Longrightarrow> \<not> P x \<Longrightarrow> g x = []) \<Longrightarrow>
     concat (map g xs) = concat (map g (filter P xs))"
  by (induction xs) auto

lemma backtrack_prefix:
  "filter (keeps t) (backtrack r (s @ t, c)) = map (ext t) (backtrack r (s, c))"
proof (induction r arbitrary: s c)
  case (Lit w)
  have "filter (keeps t) (backtrack (Lit w) (s @ t, c)) =
        map (\<lambda>s'. (s', c)) (filter (\<lambda>s''. length t \<le> length s'')
          (case strip_prefix w (s @ t) of None \<Rightarrow> [] | Some s' \<Rightarrow> [s']))"
    by (auto simp: keeps_def split: option.splits)
  also have "\<dots> = map (ext t) (backtrack (Lit w) (s, c))"
    unfolding strip_prefix_prefix by (auto simp: ext_def split: option.splits)
  finally show ?case .
next
  case (One k)
  then show ?case by (cases s; cases t) (auto simp: keeps_def ext_def)
next
  case (Plus k)
  have "filter (keeps t) (backtrack (Plus k) (s @ t, c)) =
        map (\<lambda>s'. (s', c)) (filter (\<lambda>s''. length t \<le> length s'') (greedy_rests k (s @ t)))"
    by (simp add: filter_map comp_def keeps_def)
  then show ?case by (simp add: greedy_rests_prefix comp_def ext_def)
next
  case (Star k)
  have "filter (keeps t) (backtrack (Star k) (s @ t, c)) =
        map (\<lambda>s'. (s', c)) (filter (\<lambda>s''. length t \<le> length s'') (greedy_rests k (s @ t) @ [s @ t]))"
    by (simp add: filter_map comp_def keeps_def)
  then show ?case by (simp add: greedy_rests_prefix comp_def ext_def)
next
  case (PlusLazy k)
  have "filter (keeps t) (backtrack (PlusLazy k) (s @ t, c)) =
        map (\<lambda>s'. (s', c)) (filter (\<lambda>s''. length t \<le> length s'') (lazy_rests k (s @ t)))"
    by (simp add: filter_map comp_def keeps_def)
  then show ?case by (simp add: lazy_rests_prefix comp_def ext_def)
next
  case (Opt r)
  then show ?case by (simp add: keeps_def ext_def)
next
  case (Alt r1 r2)
  then show ?case by simp
next
  case (Seq r1 r2)
  let ?g = "\<lambda>y. filter (keeps t) (backtrack r2 y)"
  have drop: "?g y = []" if "y \<in> set (backtrack r1 (s @ t, c))" "\<not> keeps t y" for y
  proof (rule filter_none)
    fix z assume z: "z \<in> set (backtrack r2 y)"
    obtain s1 c1 where y: "y = (s1, c1)" by (cases y)
    obtain s2 c2 where z2: "z = (s2, c2)" by (cases z)
    from backtrack_suffix[of s2 c2 r2 s1 c1] z y z2 have "length s2 \<le> length s1" by auto
    with that(2) y z2 show "\<not> keeps t z" by (simp add: keeps_def)
  qed
  have "filter (keeps t) (backtrack (Seq r1 r2) (s @ t, c)) =
        concat (map ?g (backtrack r1 (s @ t, c)))"
    by (simp add: filter_concat comp_def)
  also have "\<dots> = concat (map ?g (filter (keeps t) (backtrack r1 (s @ t, c))))"
    by (rule concat_map_filter) (rule drop)
  also have "\<dots> = concat (map ?g (map (ext t) (backtrack r1 (s, c))))"
    by (simp only: Seq.IH(1))
  also have "\<dots> = concat (map (\<lambda>y. map (ext t) (backtrack r2 y)) (backtrack r1 (s, c)))"
  proof -
    have "?g (ext t y) = map (ext t) (backtrack r2 y)" for y
      using Seq.IH(2)[of "fst y" "snd y"] by (simp add: ext_def)
    then show ?thesis by (simp add: comp_def)
  qed
  also have "\<dots> = map (ext t) (backtrack (Seq r1 r2) (s, c))"
    by (simp add: map_concat comp_def)
  finally show ?case .
next
  case (Group n r)
  define h where "h = (\<lambda>u (y :: string \<times> caps). (fst y, (n, take (length u - length (fst y)) u) # snd y))"
  have bt: "backtrack (Group n r) (u, c) = map (h u) (backtrack r (u, c))" for u
    by (simp add: h_def case_prod_beta)
  have kh: "keeps t (h u y) = keeps t y" for u y by (simp add: keeps_def h_def)
  have fm: "filter (keeps t) (map (h u) xs) = map (h u) (filter (keeps t) xs)" for u xs
    by (induction xs) (simp_all add: kh)
  have hh: "h (s @ t) (ext t y) = ext t (h s y)" if "y \<in> set (backtrack r (s, c))" for y
  proof -
    obtain s1 c1 where y: "y = (s1, c1)" by (cases y)
    from backtrack_suffix[of s1 c1 r s c] that y have "length s1 \<le> length s" by auto
    with y show ?thesis by (simp add: ext_def h_def)
  qed
  have "filter (keeps t) (backtrack (Group n r) (s @ t, c)) =
        map (h (s @ t)) (filter (keeps t) (backtrack r (s @ t, c)))"
    by (simp only: bt fm)
  also have "\<dots> = map (h (s @ t)) (map (ext t) (backtrack r (s, c)))"
    by (simp only: Group.IH)
  also have "\<dots> = map (ext t) (map (h s) (backtrack r (s, c)))"
    using hh by simp
  also have "\<dots> = map (ext t) (backtrack (Group n r) (s, c))"
    by (simp only: bt)
  finally show ?case .
qed

lemma backtrack_prefix_Nil:
  "backtrack r (s @ t, c) = [] \<Longrightarrow> backtrack r (s, c) = []"
  using backtrack_prefix[of t r s c] by simp

lemma backtrack_prefix_Cons:
  assumes "backtrack r (s @ t, c) = (s'', c') # ys" "length t \<le> length s''"
  shows "\<exists>s' ys'. s'' = s' @ t \<and> backtrack r (s, c) = (s', c') # ys'"
proof -
  from assms backtrack_prefix[of t r s c]
  have "map (ext t) (backtrack r (s, c)) = (s'', c') # filter (keeps t) ys"
    by (simp add: keeps_def)
  then show ?thesis by (cases "backtrack r (s, c)") (auto simp: ext_def)
qed

lemma finditer_from_start: "d \<in> set (finditer_from r k i s) \<Longrightarrow> i \<le> mt_start d"
  by (drule finditer_from_elem) auto

lemma finditer_from_prefix:
  "backtrack r ([], []) = [] \<Longrightarrow> k \<le> length s \<Longrightarrow>
     (\<forall>d \<in> set (finditer_from r k i (s @ t)).
        mt_start d < i + length s \<longrightarrow> mt_end d \<le> i + length s) \<Longrightarrow>
     finditer_from r k i s =
       filter (\<lambda>d. mt_start d < i + length s) (finditer_from r k i (s @ t))"
proof (induction r k i s rule: finditer_from.induct)
  case (1 r k i)
  then show ?case by simp
next
  case (2 r k i x xs)
  then show ?case by simp
next
  case (3 r i s)
  show ?case
  proof (cases s)
    case Nil
    have "filter (\<lambda>d. mt_start d < i) (finditer_from r 0 i t) = []"
      by (rule filter_none) (auto dest: finditer_from_start)
    moreover have "finditer_from r 0 i [] = []" by (simp add: finditer_from_end "3.prems"(1))
    ultimately show ?thesis using Nil by simp
  next
    case s: (Cons x xs)
    show ?thesis
    proof (cases "backtrack r (s @ t, [])")
      case Nil
      then have n: "backtrack r (s, []) = []" by (rule backtrack_prefix_Nil)
      from Nil s have full: "finditer_from r 0 i (s @ t) = finditer_from r 0 (Suc i) (xs @ t)"
        by (simp add: finditer_from_no_match)
      from n s have pre: "finditer_from r 0 i s = finditer_from r 0 (Suc i) xs"
        by (simp add: finditer_from_no_match)
      from "3.IH"(1)[OF n s "3.prems"(1)] "3.prems"(3) full s
      have "finditer_from r 0 (Suc i) xs =
            filter (\<lambda>d. mt_start d < Suc i + length xs) (finditer_from r 0 (Suc i) (xs @ t))"
        by simp
      with full pre s show ?thesis by simp
    next
      case (Cons y ys)
      obtain s'' c where y: "y = (s'', c)" by (cases y)
      let ?d = "\<lparr>mt_start = i, mt_end = i + (length (s @ t) - length s''), mt_groups = c\<rparr>"
      from Cons y s have full: "finditer_from r 0 i (s @ t) =
         ?d # finditer_from r (length (s @ t) - length s'' - 1) (Suc i) (xs @ t)"
        using finditer_from_match[of r x "xs @ t" s'' c ys i] by simp
      then have "?d \<in> set (finditer_from r 0 i (s @ t))" by simp
      with "3.prems"(3) s have e: "length (s @ t) - length s'' \<le> length s" by force
      have "(s'', c) \<in> set (backtrack r (s @ t, []))" using Cons y by simp
      from backtrack_suffix[OF this] obtain u where "s @ t = u @ s''" by blast
      then have "length (s @ t) = length u + length s''" by (metis length_append)
      then have "length s'' \<le> length (s @ t)" by simp
      with e have "length t \<le> length s''" by simp
      from backtrack_prefix_Cons[OF Cons[unfolded y] this] obtain s' ys' where
        s': "s'' = s' @ t" and b: "backtrack r (s, []) = (s', c) # ys'" by blast
      from b s have pre: "finditer_from r 0 i s =
         \<lparr>mt_start = i, mt_end = i + (length s - length s'), mt_groups = c\<rparr> #
         finditer_from r (length s - length s' - 1) (Suc i) xs"
        using finditer_from_match[of r x xs s' c ys' i] by simp
      from backtrack_suffix[of s' c r s "[]"] b have le: "length s' \<le> length s" by auto
      have k: "length s - length s' - 1 \<le> length xs" using s by simp
      have "finditer_from r (length s - length s' - 1) (Suc i) xs =
            filter (\<lambda>d. mt_start d < Suc i + length xs)
              (finditer_from r (length s - length s' - 1) (Suc i) (xs @ t))"
        using "3.IH"(2)[OF b refl s "3.prems"(1) k] "3.prems"(3) full s s' by simp
      with full pre s s' le show ?thesis by simp
    qed
  qed
qed

lemma finditer_start_less:
  assumes ne: "backtrack r ([], []) = []" and d: "d \<in> set (finditer r s)"
  shows "mt_start d < length s"
proof -
  from finditer_elem[OF d] obtain s' ys where
    b: "backtrack r (drop (mt_start d) s, []) = (s', mt_groups d) # ys" and
    le: "mt_start d \<le> length s" by blast
  from b ne have "drop (mt_start d) s \<noteq> []" by auto
  with le show ?thesis by simp
qed

lemma finditer_prefix:
  assumes ne: "backtrack r ([], []) = []"
    and ns: "\<forall>d \<in> set (finditer r s). mt_start d < n \<longrightarrow> mt_end d \<le> n"
  shows "finditer r (take n s) = filter (\<lambda>d. mt_start d < n) (finditer r s)"
proof (cases "n < length s")
  case True
  then have l: "length (take n s) = n" by simp
  have "finditer_from r 0 0 (take n s) =
        filter (\<lambda>d. mt_start d < 0 + length (take n s)) (finditer_from r 0 0 (take n s @ drop n s))"
    by (rule finditer_from_prefix[OF ne]) (use ns l in \<open>auto simp: finditer_def\<close>)
  with l show ?thesis by (simp add: finditer_def)
next
  case False
  have "mt_start d < n" if "d \<in> set (finditer r s)" for d
    using finditer_start_less[OF ne that] False by simp
  then have "filter (\<lambda>d. mt_start d < n) (finditer r s) = finditer r s"
    by (simp add: filter_id_conv)
  with False show ?thesis by simp
qed

lemma sig_pattern_shape:
  assumes "(s', c') \<in> set (backtrack sig_pattern (s, c))"
  shows "\<exists>d3 d4. map_of c' 3 = Some d3 \<and> map_of c' 4 = Some d4 \<and>
     d3 \<noteq> [] \<and> (\<forall>x\<in>set d3. isdecimal x) \<and> d4 \<noteq> [] \<and> (\<forall>x\<in>set d4. isdecimal x)"
  using assms unfolding sig_pattern_def cat.simps
  apply (simp only: bt_iff cls.simps)
  apply (elim exE conjE disjE)
  apply simp_all
  done


lemma sig_match_decimals:
  assumes "m \<in> set (finditer sig_pattern s)"
  shows "group_str m 3 \<noteq> [] \<and> (\<forall>x\<in>set (group_str m 3). isdecimal x) \<and>
     group_str m 4 \<noteq> [] \<and> (\<forall>x\<in>set (group_str m 4). isdecimal x)"
proof -
  from finditer_elem_mem[OF assms] obtain s' where
    "(s', mt_groups m) \<in> set (backtrack sig_pattern (drop (mt_start m) s, []))" by blast
  from sig_pattern_shape[OF this] obtain d3 d4 where
    g: "map_of (mt_groups m) 3 = Some d3" "map_of (mt_groups m) 4 = Some d4" and
    d: "d3 \<noteq> []" "\<forall>x\<in>set d3. isdecimal x" "d4 \<noteq> []" "\<forall>x\<in>set d4. isdecimal x" by blast
  from g have "group_str m 3 = d3" "group_str m 4 = d4" by (simp_all add: group_str_def group_def)
  with d show ?thesis by simp
qed

lemma msg_pattern_no_empty: "backtrack msg_pattern ([], []) = []"
  by (simp add: msg_pattern_def)

lemma sig_pattern_no_empty: "backtrack sig_pattern ([], []) = []"
  by (simp add: sig_pattern_def)

lemma add_signal_orphan:
  assumes "m \<in> set (finditer sig_pattern content)"
    and "finditer msg_pattern (take (mt_start m) content) = []"
    and "length (group_str m 3) \<le> 4300" "length (group_str m 4) \<le> 4300"
  shows "add_signal content m p = Inr p"
proof -
  from sig_match_decimals[OF assms(1)] have
    d: "group_str m 3 \<noteq> []" "\<forall>x\<in>set (group_str m 3). isdecimal x"
       "group_str m 4 \<noteq> []" "\<forall>x\<in>set (group_str m 4). isdecimal x" by blast+
  from py_int_decimals[OF d(1,2) assms(3)] py_int_decimals[OF d(3,4) assms(4)] assms(2)
  show ?thesis by (auto simp: add_signal_def)
qed

text \<open>a start bit of more than 4300 digits makes the step of the declaration raise, before
  the messages in front of it are looked for\<close>

lemma add_signal_long_start_bit:
  assumes "\<forall>x\<in>set (group_str m 3). isdecimal x" "4300 < length (group_str m 3)"
  shows "add_signal content m p = Inl ValueError"
  using py_int_too_long[OF assms] by (simp add: add_signal_def)

lemma for_each_skip:
  assumes "\<And>st. body m st = Inr st"
  shows "for_each body xs st = for_each body (filter (\<lambda>x. x \<noteq> m) xs) st"
  by (induction xs arbitrary: st) (auto simp: assms split: sum.splits)

lemma no_message_before:
  assumes "\<forall>d \<in> set (finditer msg_pattern content). n \<le> mt_start d"
  shows "finditer msg_pattern (take n content) = []"
proof -
  have "finditer msg_pattern (take n content) =
        filter (\<lambda>d. mt_start d < n) (finditer msg_pattern content)"
    by (rule finditer_prefix[OF msg_pattern_no_empty]) (use assms in force)
  also have "\<dots> = []" by (rule filter_none) (use assms in force)
  finally show ?thesis .
qed


lemma greedy_rests_all:
  "u \<noteq> [] \<Longrightarrow> \<forall>x\<in>set u. cls k x \<Longrightarrow> s = [] \<or> \<not> cls k (hd s) \<Longrightarrow>
     \<exists>ws. greedy_rests k (u @ s) = s # ws"
proof (induction u)
  case Nil
  then show ?case by simp
next
  case (Cons x u)
  show ?case
  proof (cases "u = []")
    case True
    from Cons.prems(3) have "greedy_rests k s = []" by (cases s) auto
    with True Cons.prems show ?thesis by simp
  next
    case False
    from Cons.IH[OF False] Cons.prems obtain ws where "greedy_rests k (u @ s) = s # ws" by auto
    with Cons.prems show ?thesis by simp
  qed
qed


lemma first_Plus:
  "u \<noteq> [] \<Longrightarrow> \<forall>x\<in>set u. cls k x \<Longrightarrow> s = [] \<or> \<not> cls k (hd s) \<Longrightarrow>
     first_match (Plus k) (u @ s, c) (s, c)"
  using greedy_rests_all[of u k s] by (auto simp: first_match_def)

lemma first_Star:
  "\<forall>x\<in>set u. cls k x \<Longrightarrow> s = [] \<or> \<not> cls k (hd s) \<Longrightarrow>
     first_match (Star k) (u @ s, c) (s, c)"
proof (cases "u = []")
  case True
  assume "s = [] \<or> \<not> cls k (hd s)"
  then have "greedy_rests k s = []" by (cases s) auto
  with True show ?thesis by (simp add: first_match_def)
next
  case False
  assume "\<forall>x\<in>set u. cls k x" "s = [] \<or> \<not> cls k (hd s)"
  from greedy_rests_all[OF False this] show ?thesis by (auto simp: first_match_def)
qed


lemma first_Seq: "first_match r1 x y \<Longrightarrow> first_match r2 y z \<Longrightarrow> first_match (Seq r1 r2) x z"
  by (cases x) (auto simp: first_match_def)

lemma first_Group:
  "first_match r (u @ s, c) (s, c') \<Longrightarrow> first_match (Group n r) (u @ s, c) (s, (n, u) # c')"
  by (auto simp: first_match_def)

lemma finditer_from_skip_all:
  "backtrack r ([], []) = [] \<Longrightarrow> length s \<le> k \<Longrightarrow> finditer_from r k i s = []"
proof (induction r k i s rule: finditer_from.induct)
  case (1 r k i)
  then show ?case by simp
next
  case (2 r k i x xs)
  then show ?case by simp
next
  case (3 r i s)
  then show ?case by (simp add: finditer_from_end)
qed

lemma finditer_from_skip:
  "finditer_from r (length u) i (u @ s) = finditer_from r 0 (i + length u) s"
  by (induction u arbitrary: i) auto

lemma finditer_first:
  assumes "first_match r (u @ s, []) (s, c)" "u \<noteq> []"
  shows "finditer_from r 0 i (u @ s) =
     \<lparr>mt_start = i, mt_end = i + length u, mt_groups = c\<rparr> # finditer_from r 0 (i + length u) s"
proof -
  from assms(2) obtain x xs where u: "u = x # xs" by (cases u) auto
  from assms(1) obtain ws where "backtrack r (x # (xs @ s), []) = (s, c) # ws"
    by (auto simp: first_match_def u)
  from finditer_from_match[OF this, of i] finditer_from_skip[of r xs "Suc i" s] u
  show ?thesis by simp
qed

lemma concat_map_concat: "concat (map f (concat xss)) = concat (map (\<lambda>xs. concat (map f xs)) xss)"
  by (induction xss) auto

lemma backtrack_cat_append:
  "xs \<noteq> [] \<Longrightarrow> ys \<noteq> [] \<Longrightarrow>
     backtrack (cat (xs @ ys)) x = concat (map (backtrack (cat ys)) (backtrack (cat xs) x))"
proof (induction xs arbitrary: x)
  case Nil
  then show ?case by simp
next
  case (Cons r xs)
  obtain s c where x: "x = (s, c)" by (cases x)
  from Cons.prems(2) obtain y ys' where ys: "ys = y # ys'" by (cases ys) auto
  show ?case
  proof (cases xs)
    case Nil
    with x ys show ?thesis by simp
  next
    case (Cons r' rs)
    from Cons.IH[OF _ Cons.prems(2)] Cons
    have "backtrack (cat (r' # rs @ ys)) =
        (\<lambda>z. concat (map (backtrack (cat ys)) (backtrack (cat (r' # rs)) z)))" by auto
    with x Cons show ?thesis by (simp add: concat_map_concat comp_def)
  qed
qed

lemma first_cat:
  assumes "first_match (cat xs) x y" "first_match (cat ys) y z" "xs \<noteq> []" "ys \<noteq> []"
  shows "first_match (cat (xs @ ys)) x z"
  using assms(1,2) by (auto simp: first_match_def backtrack_cat_append[OF assms(3,4)])

text \<open>a signal declaration at the start of a text, with the run of digits \<open>ds\<close> as its
  start bit\<close>

lemma sig_before_start_bit:
  "first_match (cat [Lit ''SG_'', Plus Space, Group 1 (Plus NonSpace), Star Space,
       Opt (Group 2 (Alt (Lit ''M'') (cat [Lit ''m'', Plus Digit, Opt (Lit ''M'')]))),
       Star Space, Lit '':''])
     (''SG_ S :'' @ t, []) (t, [(1, ''S'')])"
  by (simp add: first_match_def isspace_def whitespace_chars_def)

lemma sig_start_bit:
  assumes "ds \<noteq> []" "\<forall>x\<in>set ds. isdecimal x" "t = [] \<or> \<not> isdecimal (hd t)"
  shows "first_match (cat [Star Space, Group 3 (Plus Digit)]) ('' '' @ ds @ t, c) (t, (3, ds) # c)"
proof -
  from assms(1,2) have "\<not> isspace (hd (ds @ t))" by (cases ds) (auto dest: isdecimal_not_isspace)
  then have a: "first_match (Star Space) ('' '' @ ds @ t, c) (ds @ t, c)"
    by (intro first_Star) (auto simp: isspace_def whitespace_chars_def)
  have "first_match (Plus Digit) (ds @ t, c) (t, c)"
    by (rule first_Plus) (use assms in auto)
  then have "first_match (Group 3 (Plus Digit)) (ds @ t, c) (t, (3, ds) # c)"
    by (rule first_Group)
  from first_Seq[OF a this] show ?thesis by simp
qed

lemma sig_after_start_bit:
  "first_match (cat [Lit ''|'', Group 4 (Plus Digit),
       Lit ''@'', Group 5 (One (Only ''01'')), Group 6 (One (Only ''+-'')), Star Space,
       Lit ''('', Group 7 (Plus (Except '','')), Lit '','', Group 8 (Plus (Except '')'')), Lit '')'',
       Star Space, Lit ''['', Group 9 (Plus (Except ''|'')), Lit ''|'',
       Group 10 (Plus (Except '']'')), Lit '']'', Star Space, Lit [CHR 0x22],
       Group 11 (Star (Except [CHR 0x22])), Lit [CHR 0x22], Star Space, Group 12 (Plus Dot)])
     (''|8@1+ (1,0) [0|255] \"\" R'', c)
     ([], [(12, ''R''), (11, []), (10, ''255''), (9, ''0''), (8, ''0''), (7, ''1''),
           (6, ''+''), (5, ''1''), (4, ''8'')] @ c)"
  by (simp add: first_match_def isspace_def whitespace_chars_def isdecimal_def)

lemma sig_with_start_bit:
  assumes "ds \<noteq> []" "\<forall>x\<in>set ds. isdecimal x"
  shows "finditer sig_pattern (''SG_ S : '' @ ds @ ''|8@1+ (1,0) [0|255] \"\" R'') =
     [\<lparr>mt_start = 0, mt_end = length (''SG_ S : '' @ ds @ ''|8@1+ (1,0) [0|255] \"\" R''),
       mt_groups = [(12, ''R''), (11, []), (10, ''255''), (9, ''0''), (8, ''0''), (7, ''1''),
           (6, ''+''), (5, ''1''), (4, ''8''), (3, ds), (1, ''S'')]\<rparr>]"
proof -
  let ?post = "''|8@1+ (1,0) [0|255] \"\" R''"
  let ?u = "''SG_ S : '' @ ds @ ?post"
  let ?c = "[(12, ''R''), (11, []), (10, ''255''), (9, ''0''), (8, ''0''), (7, ''1''),
           (6, ''+''), (5, ''1''), (4, ''8''), (3, ds), (1, ''S'')]"
  have "\<not> isdecimal (hd ?post)" by (simp add: isdecimal_def)
  from sig_start_bit[OF assms, of ?post "[(1, ''S'')]"] this
  have b: "first_match (cat [Star Space, Group 3 (Plus Digit)]) ('' '' @ ds @ ?post, [(1, ''S'')])
       (?post, [(3, ds), (1, ''S'')])" by simp
  from first_cat[OF b sig_after_start_bit[of "[(3, ds), (1, ''S'')]"]]
  have c: "first_match (cat ([Star Space, Group 3 (Plus Digit)] @ [Lit ''|'', Group 4 (Plus Digit),
       Lit ''@'', Group 5 (One (Only ''01'')), Group 6 (One (Only ''+-'')), Star Space,
       Lit ''('', Group 7 (Plus (Except '','')), Lit '','', Group 8 (Plus (Except '')'')), Lit '')'',
       Star Space, Lit ''['', Group 9 (Plus (Except ''|'')), Lit ''|'',
       Group 10 (Plus (Except '']'')), Lit '']'', Star Space, Lit [CHR 0x22],
       Group 11 (Star (Except [CHR 0x22])), Lit [CHR 0x22], Star Space, Group 12 (Plus Dot)]))
     ('' '' @ ds @ ?post, [(1, ''S'')]) ([], ?c)" by simp
  from first_cat[OF sig_before_start_bit[of "'' '' @ ds @ ?post"] c]
  have "first_match sig_pattern (?u @ [], []) ([], ?c)"
    by (simp add: sig_pattern_def)
  from finditer_first[OF this, of 0]
  show ?thesis by (simp add: finditer_def finditer_from_end sig_pattern_no_empty)
qed

lemma msg_pattern_needs_B: "s = [] \<or> hd s \<noteq> CHR ''B'' \<Longrightarrow> backtrack msg_pattern (s, c) = []"
  by (cases s) (auto simp: msg_pattern_def)

lemma no_B_no_message: "CHR ''B'' \<notin> set s \<Longrightarrow> finditer_from msg_pattern k i s = []"
proof (induction msg_pattern k i s rule: finditer_from.induct)
  case (1 k i)
  then show ?case by simp
next
  case (2 k i x xs)
  then show ?case by simp
next
  case (3 i s)
  have b: "backtrack msg_pattern (s, []) = []"
    by (rule msg_pattern_needs_B) (use "3.prems" in \<open>cases s; auto\<close>)
  show ?case
  proof (cases s)
    case Nil
    with b show ?thesis by (simp add: finditer_from_end)
  next
    case (Cons x xs)
    with b "3.hyps"(1)[OF b Cons] "3.prems" show ?thesis by (simp add: finditer_from_no_match)
  qed
qed

lemma decimals_no_B: "\<forall>x\<in>set ds. isdecimal x \<Longrightarrow> CHR ''B'' \<notin> set ds"
proof
  assume "\<forall>x\<in>set ds. isdecimal x" "CHR ''B'' \<in> set ds"
  then have "isdecimal CHR ''B''" by blast
  then show False by (simp add: isdecimal_def)
qed

lemma long_start_bit_raises:
  assumes "ds \<noteq> []" "\<forall>x\<in>set ds. isdecimal x" "4300 < length ds"
  shows "finditer msg_pattern (''SG_ S : '' @ ds @ ''|8@1+ (1,0) [0|255] \"\" R'') = [] \<and>
    map mt_start (finditer sig_pattern (''SG_ S : '' @ ds @ ''|8@1+ (1,0) [0|255] \"\" R'')) = [0] \<and>
    parse_messages_and_signals (''SG_ S : '' @ ds @ ''|8@1+ (1,0) [0|255] \"\" R'') init_parser =
      Inl ValueError"
proof -
  let ?t = "''SG_ S : '' @ ds @ ''|8@1+ (1,0) [0|255] \"\" R''"
  have "CHR ''B'' \<notin> set ds" by (rule decimals_no_B[OF assms(2)])
  then have "CHR ''B'' \<notin> set ?t" by simp
  then have m: "finditer msg_pattern ?t = []" unfolding finditer_def by (rule no_B_no_message)
  note s = sig_with_start_bit[OF assms(1,2)]
  have "add_signal ?t (hd (finditer sig_pattern ?t)) init_parser = Inl ValueError"
    by (rule add_signal_long_start_bit) (use assms s in \<open>simp_all add: group_str_def group_def\<close>)
  with m s show ?thesis by (simp add: parse_messages_and_signals_def)
qed

text \<open>
  Claim C5, as the program has it: a signal declaration before which no message declaration
  starts, and whose start bit and length have no more than 4300 digits each, is discarded.
  Its step of the loop over the signal declarations leaves every state of the parser as it
  is and raises nothing, so the loop gives what it gives without that declaration.
\<close>

theorem C5_orphaned_signal_discarded:
  assumes "m \<in> set (finditer sig_pattern content)"
    and "\<forall>d \<in> set (finditer msg_pattern content). mt_start m \<le> mt_start d"
    and "length (group_str m 3) \<le> 4300" and "length (group_str m 4) \<le> 4300"
  shows "(\<forall>p. add_signal content m p = Inr p) \<and>
     (\<forall>p. for_each (add_signal content) (finditer sig_pattern content) p =
          for_each (add_signal content) (filter (\<lambda>x. x \<noteq> m) (finditer sig_pattern content)) p)"
proof -
  have a: "add_signal content m p = Inr p" for p
    by (rule add_signal_orphan[OF assms(1) no_message_before[OF assms(2)] assms(3,4)])
  from for_each_skip[of "add_signal content" m, OF a] a
  show ?thesis by blast
qed

lemma orphan_parsed:
  "hd (finditer sig_pattern text_signal_first) \<in> set (finditer sig_pattern text_signal_first) \<and>
   (\<forall>d \<in> set (finditer msg_pattern text_signal_first).
      mt_start (hd (finditer sig_pattern text_signal_first)) \<le> mt_start d) \<and>
   length (group_str (hd (finditer sig_pattern text_signal_first)) 3) \<le> 4300 \<and>
   length (group_str (hd (finditer sig_pattern text_signal_first)) 4) \<le> 4300 \<and>
   length (finditer msg_pattern text_signal_first) = 1 \<and>
   (case parse_messages_and_signals text_signal_first init_parser of
      Inl e \<Rightarrow> None
    | Inr p \<Rightarrow> Some (map (\<lambda>(k, sigs). (k, map s_name sigs)) (signals p))) = Some [(100, [])]"
  by code_simp

theorem C5_orphaned_signal_discarded_witness:
  "add_signal text_signal_first (hd (finditer sig_pattern text_signal_first)) init_parser =
     Inr init_parser \<and>
   (\<exists>q. parse_messages_and_signals text_signal_first init_parser = Inr q \<and>
      map (\<lambda>(k, sigs). (k, map s_name sigs)) (signals q) = [(100, [])])"
proof -
  from orphan_parsed have
    a: "hd (finditer sig_pattern text_signal_first) \<in> set (finditer sig_pattern text_signal_first)"
    and b: "\<forall>d \<in> set (finditer msg_pattern text_signal_first).
      mt_start (hd (finditer sig_pattern text_signal_first)) \<le> mt_start d"
    and l: "length (group_str (hd (finditer sig_pattern text_signal_first)) 3) \<le> 4300"
      "length (group_str (hd (finditer sig_pattern text_signal_first)) 4) \<le> 4300"
    and c: "(case parse_messages_and_signals text_signal_first init_parser of
      Inl e \<Rightarrow> None
    | Inr p \<Rightarrow> Some (map (\<lambda>(k, sigs). (k, map s_name sigs)) (signals p))) = Some [(100, [])]"
    by blast+
  from C5_orphaned_signal_discarded[OF a b l]
  have "add_signal text_signal_first (hd (finditer sig_pattern text_signal_first)) init_parser =
     Inr init_parser" by blast
  with c[THEN case_sum_SomeE] show ?thesis by blast
qed

text \<open>
  Claim C5 as it is written fails: in the text \<^verbatim>\<open>SG_ S : 1...1|8@1+ (1,0) [0|255] "" R\<close>,
  whose start bit is 4301 digits long, there is no message declaration, the signal
  declaration is the only one, and the extraction raises \<^verbatim>\<open>ValueError\<close>: the start bit is
  converted before the message of the signal is looked for.
\<close>

theorem C5_long_start_bit_raises:
  "finditer msg_pattern text_long_start_bit = [] \<and>
   map mt_start (finditer sig_pattern text_long_start_bit) = [0] \<and>
   parse_messages_and_signals text_long_start_bit init_parser = Inl ValueError"
  unfolding text_long_start_bit_def
  by (rule long_start_bit_raises) (simp_all add: isdecimal_def)


text \<open>the example of the specification: two messages, then a signal\<close>

lemma two_messages_then_signal_parsed:
  "signal_names (parse_messages_and_signals text_two_messages_then_signal init_parser) =
     Some [(100, []), (200, [''SigA''])]"
  by code_simp

text \<open>
  Claim C2: a signal declaration with a message declaration before it goes to the message
  whose declaration is the latest before the position of the signal. The program does not
  keep to that when a message declaration runs across the start of a signal declaration.
  In the text \<^verbatim>\<open>BO_ 1 A: 8 X\<close>, new line, \<^verbatim>\<open>BO_ 2 B: 8 SG_ S : 0|8@1+ (1,0) [0|255] "" R\<close>
  the loop over the message declarations records the messages 1 and 2, declared at the
  offsets 0 and 13 (the second with \<^verbatim>\<open>SG_\<close> for its transmitter), and the signal S is
  declared at the offset 24, after both. The scan of the text before the signal,
  \<^verbatim>\<open>content[:sig_pos]\<close>, finds the declaration of message 1 only, and the parser stores the
  signal under 1, not under 2, the message declared latest before it.
\<close>

theorem C2_message_running_into_signal:
  "map mt_start (finditer msg_pattern text_message_runs_into_signal) = [0, 13] \<and>
   map mt_end (finditer msg_pattern text_message_runs_into_signal) = [12, 27] \<and>
   map (\<lambda>d. group_str d 1) (finditer msg_pattern text_message_runs_into_signal) = [''1'', ''2''] \<and>
   map mt_start (finditer sig_pattern text_message_runs_into_signal) = [24] \<and>
   map (\<lambda>d. group_str d 1) (finditer msg_pattern (take 24 text_message_runs_into_signal)) =
     [''1''] \<and>
   signal_names (parse_messages_and_signals text_message_runs_into_signal init_parser) =
     Some [(1, [''S'']), (2, [])]"
  by code_simp

text \<open>the pattern of a pair of a value table\<close>

lemma value_pair_pattern_shape:
  assumes "(s', c') \<in> set (backtrack value_pair_pattern (s, c))"
  shows "\<exists>g ds v. c' = (2, v) # (1, g) # c \<and> (g = ds \<or> g = CHR ''-'' # ds) \<and>
     ds \<noteq> [] \<and> (\<forall>x\<in>set ds. isdecimal x)"
  using assms unfolding value_pair_pattern_def cat.simps
  apply (simp only: bt_iff cls.simps)
  apply (elim exE conjE disjE)
   apply auto
  done














section \<open>Attribute assignments on concrete entries\<close>

lemma ba_extended_entry:
  \<open>parse_ba_assignments ''BA_ "Prop" SG_ 2147483748 SigA 5;'' init_parser =
     Inr (init_parser\<lparr>ba_assignments := [(''SG'', ''100:SigA'', ''Prop'', ''5'')]\<rparr>)\<close>
  by code_simp

text \<open>
  Claim C3, as the specification states it: parsing the entry
  \<^verbatim>\<open>BA_ "Prop" SG_ 2147483748 SigA 5;\<close> gives an assignment with scope SG, scope identifier
  \<^verbatim>\<open>4:SigA\<close>, attribute name Prop and value 5. The parser does not: 2147483748 is
  0x80000000 + 100, so nothing with the identifier \<^verbatim>\<open>4:SigA\<close> is recorded.
\<close>

theorem C3_scope_id_is_not_4:
  \<open>parse_ba_assignments ''BA_ "Prop" SG_ 2147483748 SigA 5;'' init_parser \<noteq>
     Inr (init_parser\<lparr>ba_assignments := [(''SG'', ''4:SigA'', ''Prop'', ''5'')]\<rparr>)\<close>
proof
  assume \<open>parse_ba_assignments ''BA_ "Prop" SG_ 2147483748 SigA 5;'' init_parser =
     Inr (init_parser\<lparr>ba_assignments := [(''SG'', ''4:SigA'', ''Prop'', ''5'')]\<rparr>)\<close>
  then have "ba_assignments (init_parser\<lparr>ba_assignments := [(''SG'', ''100:SigA'', ''Prop'', ''5'')]\<rparr>)
     = ba_assignments (init_parser\<lparr>ba_assignments := [(''SG'', ''4:SigA'', ''Prop'', ''5'')]\<rparr>)"
    by (simp only: ba_extended_entry sum.inject)
  then show False by simp
qed

text \<open>
  Claim C3, amended: parsing the entry \<^verbatim>\<open>BA_ "Prop" SG_ 2147483748 SigA 5;\<close> gives exactly one
  assignment, with scope SG, scope identifier \<^verbatim>\<open>100:SigA\<close> (the identifier with the
  extended flag 0x80000000 taken off), attribute name Prop and value 5.
\<close>

theorem C3_scope_id_is_100:
  \<open>parse_ba_assignments ''BA_ "Prop" SG_ 2147483748 SigA 5;'' init_parser =
     Inr (init_parser\<lparr>ba_assignments := [(''SG'', ''100:SigA'', ''Prop'', ''5'')]\<rparr>)\<close>
  by (rule ba_extended_entry)

text \<open>
  Claim C9: the extraction of attribute assignments is not total. A signal-scoped
  assignment whose identifier is no decimal numeral, or is missing, makes \<^verbatim>\<open>int()\<close> raise
  \<^verbatim>\<open>ValueError\<close>; the pass has no handler, so it returns no assignments at all, not even
  those of the well-formed entries before and after the malformed one.
\<close>

theorem C9_ba_assignment_raises:
  \<open>parse_ba_assignments ''BA_ "X" SG_ foo SigA 5;'' init_parser = Inl ValueError
   \<and> parse_ba_assignments ''BA_ "X" SG_;'' init_parser = Inl ValueError
   \<and> parse_ba_assignments ''BA_ "W" 1;BA_ "X" SG_ foo SigA 5;BA_ "Y" 7;'' init_parser
       = Inl ValueError
   \<and> py_int ''foo'' = Inl ValueError \<and> py_int [] = Inl ValueError\<close>
  by code_simp

section \<open>Value tables on a concrete declaration\<close>

text \<open>
  Claim C4: the declaration \<^verbatim>\<open>VAL_TABLE_ Tbl 0 "Off" 1 "On" ;\<close> is parsed to the table Tbl
  with the mapping of 0 to Off and of 1 to On, and the writer's formatting of that mapping,
  sorted by key, is the text \<^verbatim>\<open>0:"Off" 1:"On"\<close>.
\<close>

theorem C4_value_table_round_trip:
  \<open>parse_value_tables ''VAL_TABLE_ Tbl 0 "Off" 1 "On" ;'' init_parser =
     Inr (init_parser\<lparr>value_tables := [(''Tbl'', [(0, ''Off''), (1, ''On'')])]\<rparr>)
   \<and> parse_value_dict ''0 "Off" 1 "On"'' = Inr [(0, ''Off''), (1, ''On'')]
   \<and> format_value_pairs [(0, ''Off''), (1, ''On'')] = ''0:"Off" 1:"On"''
   \<and> format_value_pairs [(1, ''On''), (0, ''Off'')] = ''0:"Off" 1:"On"''\<close>
  by code_simp

end
